theory Spec2Isabelle
  imports Complex_Main "HOL-Library.Word" "HOL-Library.Sublist"
begin

unbundle bit_operations_syntax

section \<open>rasterprynt: the raster protocol encoder\<close>

text \<open>
  A shallow embedding of \<^verbatim>\<open>rasterprynt.py\<close>. Bytes objects are lists of 8-bit
  words, Python integers are \<^typ>\<open>int\<close> (counts and lengths that cannot be negative are
  \<^typ>\<open>nat\<close>), and a generator is the list of the chunks it yields when it is
  drained, or the exception that draining it raises. The HTTP request of model detection
  and the detection cache are parameters of the functions that use them. The transport
  (\<^verbatim>\<open>cat\<close>, \<^verbatim>\<open>print\<close>) only joins and sends the chunks and is left out.
\<close>

subsection \<open>Exceptions and \<^verbatim>\<open>struct.pack\<close>\<close>

type_synonym byte = "8 word"

text \<open>
  \<^verbatim>\<open>struct.error\<close> (a value out of the range of its format), a failed
  \<^verbatim>\<open>assert\<close>, a plain \<^verbatim>\<open>URLError\<close> (no \<^verbatim>\<open>code\<close> attribute), its subclass
  \<^verbatim>\<open>HTTPError\<close> with its \<^verbatim>\<open>code\<close> and the body that \<^verbatim>\<open>read()\<close> returns,
  any other exception that the HTTP request raises (a timeout or a reset while the
  response is read, an incomplete read: none of them is a \<^verbatim>\<open>URLError\<close>), and the
  \<^verbatim>\<open>IndexError\<close> of a pixel access outside the image.
\<close>

datatype py_exn =
    StructError
  | AssertionError
  | URLError
  | HTTPError int string
  | OtherException
  | IndexError

definition exn_bind :: "py_exn + 'a \<Rightarrow> ('a \<Rightarrow> py_exn + 'b) \<Rightarrow> py_exn + 'b" where
  "exn_bind m f = (case m of Inl e \<Rightarrow> Inl e | Inr v \<Rightarrow> f v)"

text \<open>\<^verbatim>\<open>struct.pack('!b', v)\<close>: one signed byte.\<close>

definition pack_b :: "int \<Rightarrow> py_exn + byte list" where
  "pack_b v = (if - 128 \<le> v \<and> v \<le> 127 then Inr [word_of_int v] else Inl StructError)"

text \<open>\<^verbatim>\<open>struct.pack('!B', v)\<close>: one unsigned byte.\<close>

definition pack_B :: "int \<Rightarrow> py_exn + byte list" where
  "pack_B v = (if 0 \<le> v \<and> v \<le> 255 then Inr [word_of_int v] else Inl StructError)"

text \<open>
  \<^verbatim>\<open>struct.pack('!bB', a, b)\<close>, where \<open>b\<close> is an element of a bytes object (so
  already in the range of \<^verbatim>\<open>B\<close>).
\<close>

definition pack_bB :: "int \<Rightarrow> byte \<Rightarrow> py_exn + byte list" where
  "pack_bB a b = (if - 128 \<le> a \<and> a \<le> 127 then Inr [word_of_int a, b] else Inl StructError)"

text \<open>\<^verbatim>\<open>struct.pack('<H', v)\<close>: 16 bits, little-endian.\<close>

definition pack_H :: "int \<Rightarrow> py_exn + byte list" where
  "pack_H v = (if 0 \<le> v \<and> v \<le> 65535
     then Inr [word_of_int v, word_of_int (v div 256)] else Inl StructError)"

text \<open>\<^verbatim>\<open>struct.pack('<I', v)\<close>: 32 bits, little-endian.\<close>

definition pack_I :: "int \<Rightarrow> py_exn + byte list" where
  "pack_I v = (if 0 \<le> v \<and> v \<le> 4294967295
     then Inr [word_of_int v, word_of_int (v div 256),
               word_of_int (v div 65536), word_of_int (v div 16777216)]
     else Inl StructError)"

subsection \<open>The row compressor: \<^verbatim>\<open>_compress_tiff\<close>\<close>

text \<open>The slice \<^verbatim>\<open>row[a:b]\<close> for \<open>0 \<le> a\<close> and \<open>0 \<le> b\<close>.\<close>

definition py_slice :: "'a list \<Rightarrow> nat \<Rightarrow> nat \<Rightarrow> 'a list" where
  "py_slice row a b = take (b - a) (drop a row)"

text \<open>
  The inner loop:
  \<^verbatim>\<open>while pos + count + 1 < len(row) and row[pos + count + 1] == row[pos + count]: count += 1\<close>
\<close>

function count_run :: "byte list \<Rightarrow> nat \<Rightarrow> nat \<Rightarrow> nat" where
  "count_run row pos count =
     (if pos + count + 1 < length row \<and> row ! (pos + count + 1) = row ! (pos + count)
      then count_run row pos (count + 1)
      else count)"
  by pat_completeness auto
termination
  by (relation "measure (\<lambda>(row, pos, count). length row - (pos + count))") auto

declare count_run.simps [simp del]

text \<open>
  Flushing the uncompressed buffer:
  \<^verbatim>\<open>yield struct.pack('!b', pos - uncompressed_start - 1) + row[uncompressed_start:pos]\<close>
\<close>

definition flush_uncompressed :: "byte list \<Rightarrow> nat \<Rightarrow> nat \<Rightarrow> py_exn + byte list" where
  "flush_uncompressed row uncompressed_start pos =
     exn_bind (pack_b (int pos - int uncompressed_start - 1))
       (\<lambda>tag. Inr (tag @ py_slice row uncompressed_start pos))"

text \<open>The outer loop, from the state \<open>(pos, uncompressed_start)\<close>, with the final flush.\<close>

function compress_loop :: "byte list \<Rightarrow> nat \<Rightarrow> nat \<Rightarrow> py_exn + byte list list" where
  "compress_loop row pos uncompressed_start =
     (if pos < length row then
        (let count = count_run row pos 0 in
         if count > 0 then
           (case (if uncompressed_start < pos
                  then exn_bind (flush_uncompressed row uncompressed_start pos) (\<lambda>c. Inr [c])
                  else Inr []) of
              Inl e \<Rightarrow> Inl e
            | Inr flushed \<Rightarrow>
               (case pack_bB (- int count) (row ! pos) of
                  Inl e \<Rightarrow> Inl e
                | Inr tag \<Rightarrow>
                   (case compress_loop row (pos + count + 1) (pos + count + 1) of
                      Inl e \<Rightarrow> Inl e
                    | Inr rest \<Rightarrow> Inr (flushed @ [tag] @ rest))))
         else compress_loop row (pos + 1) uncompressed_start)
      else
        (if uncompressed_start < pos
         then exn_bind (flush_uncompressed row uncompressed_start pos) (\<lambda>c. Inr [c])
         else Inr []))"
  by pat_completeness auto
termination
  by (relation "measure (\<lambda>(row, pos, uncompressed_start). length row - pos)") auto

declare compress_loop.simps [simp del]

definition compress_tiff :: "byte list \<Rightarrow> py_exn + byte list list" where
  "compress_tiff row = compress_loop row 0 0"

subsection \<open>The PackBits rule of the printer's decompressor\<close>

text \<open>
  The decoder the compressed rows are written for: a marker byte \<open>m\<close> read as a signed
  byte; \<open>m \<ge> 0\<close> is followed by \<open>m + 1\<close> literal bytes, \<open>m < 0\<close> by one byte that is
  repeated \<open>1 - m\<close> times. A stream that ends inside a chunk does not decode.
\<close>

fun packbits_decode :: "byte list \<Rightarrow> byte list option" where
  "packbits_decode [] = Some []"
| "packbits_decode (m # bs) =
     (if 0 \<le> sint m then
        (let n = nat (sint m) + 1 in
         if length bs < n then None
         else map_option (\<lambda>out. take n bs @ out) (packbits_decode (drop n bs)))
      else
        (case bs of
           [] \<Rightarrow> None
         | b # bs' \<Rightarrow> map_option (\<lambda>out. replicate (nat (1 - sint m)) b @ out) (packbits_decode bs')))"

declare packbits_decode.simps(2) [simp del]


subsection \<open>The row rasterizer: \<^verbatim>\<open>_raw_row\<close>\<close>

text \<open>
  A pixel sample is a single integer (grayscale) or a tuple of channel values, of any
  length (three for RGB, four for RGBA, two for LA). An image has its \<^verbatim>\<open>width\<close>
  and \<^verbatim>\<open>height\<close> and one sample for every coordinate inside it.
\<close>

datatype color = Gray int | Channels "int list"

record image =
  width :: nat
  height :: nat
  pixels :: "nat \<times> nat \<Rightarrow> color"

text \<open>
  The pixel access object that \<^verbatim>\<open>img.load()\<close> returns, read at a coordinate pair
  as Pillow reads it: a negative coordinate counts from the far edge, once, and a
  coordinate that is outside the image after that raises \<^verbatim>\<open>IndexError\<close>.
\<close>

definition load :: "image \<Rightarrow> int \<times> int \<Rightarrow> py_exn + color" where
  "load img xy =
     (case xy of
        (x, y) \<Rightarrow>
          (let x' = (if x < 0 then int (width img) + x else x);
               y' = (if y < 0 then int (height img) + y else y)
           in if x' < 0 \<or> int (width img) \<le> x' \<or> y' < 0 \<or> int (height img) \<le> y'
              then Inl IndexError
              else Inr (pixels img (nat x', nat y'))))"

text \<open>
  The inner loop over \<^verbatim>\<open>bit_index\<close>, from \<^verbatim>\<open>bits = 0\<close>; an exception of the
  pixel access ends it. The quotient \<^verbatim>\<open>sum(color) / 3\<close> is Python 3's true division;
  it is compared with 230 as a rational number.
\<close>

definition raw_bits ::
  "image \<Rightarrow> (int \<times> int \<Rightarrow> py_exn + color) \<Rightarrow> int \<Rightarrow> int \<Rightarrow> nat \<Rightarrow> py_exn + int" where
  "raw_bits img img_bytes x y_offset stripe_idx =
     fold (\<lambda>bit_index acc.
        exn_bind acc (\<lambda>bits.
          (let y = int stripe_idx * 8 + int bit_index - y_offset in
           if x < int (width img) \<and> 0 \<le> y \<and> y < int (height img) then
             exn_bind (img_bytes (x, y)) (\<lambda>color.
               (let px = (case color of
                            Gray c \<Rightarrow> (of_int c :: rat)
                          | Channels cs \<Rightarrow> of_int (sum_list cs) / 3)
                in Inr (bits OR push_bit (7 - bit_index) (if px > 230 then 0 else 1))))
           else Inr bits)))
       [0..<8] (Inr 0)"

text \<open>The chunks of a generator whose steps may raise: the first exception ends it.\<close>

fun exn_collect :: "(py_exn + 'a) list \<Rightarrow> py_exn + 'a list" where
  "exn_collect [] = Inr []"
| "exn_collect (m # ms) =
     (case m of
        Inl e \<Rightarrow> Inl e
      | Inr v \<Rightarrow> (case exn_collect ms of Inl e \<Rightarrow> Inl e | Inr vs \<Rightarrow> Inr (v # vs)))"

definition raw_row ::
  "image \<Rightarrow> (int \<times> int \<Rightarrow> py_exn + color) \<Rightarrow> nat \<Rightarrow> int \<Rightarrow> int
   \<Rightarrow> py_exn + byte list list" where
  "raw_row img img_bytes stripe_count x y_offset =
     exn_collect (map (\<lambda>stripe_idx.
                         exn_bind (raw_bits img img_bytes x y_offset stripe_idx) pack_B)
                      [0..<stripe_count])"

subsection \<open>Empty rows: \<^verbatim>\<open>_empty_row\<close>\<close>

definition empty_row :: "nat \<Rightarrow> bool \<Rightarrow> py_exn + byte list" where
  "empty_row stripe_count use_tiff =
     (if use_tiff then
        exn_bind (compress_tiff (replicate stripe_count 0)) (\<lambda>chunks.
          (let compressed = concat chunks in
           exn_bind (pack_bB (1 - int stripe_count) 0) (\<lambda>expected.
             if compressed \<noteq> expected then Inl AssertionError
             else exn_bind (pack_H (int (length compressed)))
                    (\<lambda>len. Inr ([0x47] @ len @ compressed)))))
      else
        exn_bind (pack_H (int stripe_count))
          (\<lambda>len. Inr ([0x47] @ len @ replicate stripe_count 0)))"

text \<open>\<^verbatim>\<open>bytes * n\<close>: no copy at all for \<open>n \<le> 0\<close>.\<close>

definition bytes_mul :: "byte list \<Rightarrow> int \<Rightarrow> byte list" where
  "bytes_mul bs n = concat (replicate (nat n) bs)"

subsection \<open>Printer profiles and model detection\<close>

definition STRIPE_SIZE :: "string \<rightharpoonup> int" where
  "STRIPE_SIZE = [''P950NW'' \<mapsto> 408, ''9800PCN'' \<mapsto> 312]"

definition STRIPE_SIZE_DEFAULT :: int where
  "STRIPE_SIZE_DEFAULT = the (STRIPE_SIZE ''P950NW'')"

text \<open>
  \<^verbatim>\<open>STRIPE_SIZE.get(printer_model, STRIPE_SIZE_DEFAULT)\<close>, where the model is a string
  or \<^verbatim>\<open>None\<close> (which is no key of the table).
\<close>

definition dict_get :: "(string \<rightharpoonup> 'v) \<Rightarrow> string option \<Rightarrow> 'v \<Rightarrow> 'v" where
  "dict_get d k dflt =
     (case k of
        None \<Rightarrow> dflt
      | Some s \<Rightarrow> (case d s of None \<Rightarrow> dflt | Some v \<Rightarrow> v))"

text \<open>Truth value of a string or \<^verbatim>\<open>None\<close>.\<close>

fun truthy :: "string option \<Rightarrow> bool" where
  "truthy None = False"
| "truthy (Some s) = (s \<noteq> [])"

text \<open>\<^verbatim>\<open>needle in html\<close> on bytes objects.\<close>

fun bytes_in :: "string \<Rightarrow> string \<Rightarrow> bool" where
  "bytes_in needle [] = (needle = [])"
| "bytes_in needle (c # cs) = (prefix needle (c # cs) \<or> bytes_in needle cs)"

text \<open>\<^verbatim>\<open>except URLError\<close> catches \<^verbatim>\<open>URLError\<close> and its subclass.\<close>

fun is_URLError :: "py_exn \<Rightarrow> bool" where
  "is_URLError URLError = True"
| "is_URLError (HTTPError code body) = True"
| "is_URLError e = False"

text \<open>
  The network is a parameter: \<open>urlopen url\<close> is the body that
  \<^verbatim>\<open>urlopen(url)\<close> and \<^verbatim>\<open>read()\<close> return, or the exception they raise.
\<close>

type_synonym network = "string \<Rightarrow> py_exn + string"

definition detect_printer_model_uncached :: "network \<Rightarrow> string \<Rightarrow> py_exn + string option" where
  "detect_printer_model_uncached urlopen ip =
     (let test_url = ''http://'' @ ip @ ''/admin/default.html'' in
      exn_bind
        (case urlopen test_url of
           Inr html \<Rightarrow> Inr html
         | Inl urle \<Rightarrow>
            (if is_URLError urle then
               (case urle of
                  HTTPError code body \<Rightarrow> if code = 401 then Inr body else Inl urle
                | _ \<Rightarrow> Inl urle)
             else Inl urle))
        (\<lambda>html.
           if bytes_in ''<TITLE>Brother PT-9800PCN</TITLE>'' html then Inr (Some ''9800PCN'')
           else if bytes_in ''<title>Brother PT-P950NW</title>'' html then Inr (Some ''P950NW'')
           else Inr None))"

text \<open>
  The cache \<^verbatim>\<open>_PRINTER_BY_IP\<close> is passed in and returned. The result is the model
  name (or \<^verbatim>\<open>None\<close>), or the exception that is not caught.
\<close>

type_synonym cache = "string \<rightharpoonup> string"

definition detect_printer_model ::
  "network \<Rightarrow> cache \<Rightarrow> string \<Rightarrow> (py_exn + string option) \<times> cache" where
  "detect_printer_model urlopen PRINTER_BY_IP ip =
     (let cached = PRINTER_BY_IP ip in
      if truthy cached then (Inr cached, PRINTER_BY_IP)
      else
        (case detect_printer_model_uncached urlopen ip of
           Inl urle \<Rightarrow>
             if is_URLError urle then (Inr (Some ''error''), PRINTER_BY_IP)
             else (Inl urle, PRINTER_BY_IP)
         | Inr res \<Rightarrow>
             (Inr res, if truthy res then PRINTER_BY_IP(ip \<mapsto> the res) else PRINTER_BY_IP)))"

subsection \<open>The job framer: \<^verbatim>\<open>render\<close>\<close>

definition USE_TIFF :: bool where
  "USE_TIFF = False"

text \<open>The print information command of one image.\<close>

definition print_information :: "int \<Rightarrow> bool \<Rightarrow> py_exn + byte list" where
  "print_information raster_number first =
     exn_bind (pack_I raster_number) (\<lambda>rn.
       Inr ([0x1b, 0x69, 0x7a] @ [0xc0] @ [0x00] @ [0x00] @ [0x00] @ rn
            @ (if first then [0x00] else [0x01]) @ [0x00]))"

text \<open>The two chunks of the row frame of column \<open>x\<close>.\<close>

definition render_column ::
  "image \<Rightarrow> (int \<times> int \<Rightarrow> py_exn + color) \<Rightarrow> int \<Rightarrow> nat \<Rightarrow> int
   \<Rightarrow> py_exn + byte list list" where
  "render_column img img_bytes stripe_size stripe_count x =
     (let offset = stripe_size - int (height img) in
      exn_bind (raw_row img img_bytes stripe_count x offset) (\<lambda>chunks.
        (let row = concat chunks in
         if length row \<noteq> stripe_count then Inl AssertionError
         else if USE_TIFF then
           exn_bind (compress_tiff row) (\<lambda>cs.
             (let compressed_row = concat cs in
              exn_bind (pack_H (int (length compressed_row)))
                (\<lambda>len. Inr [[0x47] @ len, compressed_row])))
         else
           exn_bind (pack_H (int (length row))) (\<lambda>len. Inr [[0x47] @ len, row]))))"

text \<open>
  The body of the loop over the images after the page feed: everything from
  \<^verbatim>\<open>img.load()\<close> to the bottom margin, with the value that \<open>first\<close> has at that point.
\<close>

definition render_image ::
  "int \<Rightarrow> nat \<Rightarrow> int \<Rightarrow> int \<Rightarrow> bool \<Rightarrow> image \<Rightarrow> py_exn + byte list list" where
  "render_image stripe_size stripe_count top_margin bottom_margin first img =
     (let img_bytes = load img;
          raster_number = int (width img) + top_margin + bottom_margin in
      exn_bind (print_information raster_number first) (\<lambda>info.
      exn_bind (Inr (if USE_TIFF then [0x4d, 0x02] else [0x4d, 0x00])) (\<lambda>mode.
      exn_bind (empty_row stripe_count USE_TIFF) (\<lambda>top.
      exn_bind (exn_collect (map (\<lambda>x. render_column img img_bytes stripe_size stripe_count (int x))
                                 [0..<width img])) (\<lambda>columns.
      exn_bind (empty_row stripe_count USE_TIFF) (\<lambda>bottom.
        Inr ([info, mode, bytes_mul top top_margin] @ concat columns
             @ [bytes_mul bottom top_margin])))))))"

text \<open>The loop over the images, with its flag \<open>first\<close>.\<close>

fun render_images ::
  "int \<Rightarrow> nat \<Rightarrow> int \<Rightarrow> int \<Rightarrow> bool \<Rightarrow> image list \<Rightarrow> py_exn + byte list list" where
  "render_images stripe_size stripe_count top_margin bottom_margin first [] = Inr []"
| "render_images stripe_size stripe_count top_margin bottom_margin first (img # images) =
     (case (if first then (False, []) else (first, [[0x0c]])) of
        (first', page_feed) \<Rightarrow>
          (case render_image stripe_size stripe_count top_margin bottom_margin first' img of
             Inl e \<Rightarrow> Inl e
           | Inr block \<Rightarrow>
              (case render_images stripe_size stripe_count top_margin bottom_margin first' images of
                 Inl e \<Rightarrow> Inl e
               | Inr rest \<Rightarrow> Inr (page_feed @ block @ rest))))"

text \<open>\<^verbatim>\<open>render\<close> from the resolved printer model on.\<close>

definition render_stream :: "string option \<Rightarrow> image list \<Rightarrow> int \<Rightarrow> int \<Rightarrow> py_exn + byte list list" where
  "render_stream printer_model images top_margin bottom_margin =
     (let stripe_size = dict_get STRIPE_SIZE printer_model STRIPE_SIZE_DEFAULT in
      if stripe_size mod 8 \<noteq> 0 then Inl AssertionError
      else
        (let stripe_count = nat (stripe_size div 8) in
         exn_bind (render_images stripe_size stripe_count top_margin bottom_margin True images)
           (\<lambda>blocks.
              Inr ([[0x1b, 0x40], [0x1b, 0x69, 0x61, 0x01], [0x1b, 0x69, 0x4d, 0x00],
                    [0x1b, 0x69, 0x64, 0x00, 0x00]] @ blocks @ [[0x1a]]))))"

text \<open>
  \<^verbatim>\<open>render(images, ip, printer_model, top_margin, bottom_margin)\<close>, drained, on a
  network and a cache: the chunks or the exception, and the cache afterwards.
\<close>

definition render ::
  "network \<Rightarrow> cache \<Rightarrow> image list \<Rightarrow> string option \<Rightarrow> string option \<Rightarrow> int \<Rightarrow> int
   \<Rightarrow> (py_exn + byte list list) \<times> cache" where
  "render urlopen PRINTER_BY_IP images ip printer_model top_margin bottom_margin =
     (case (if printer_model = None
            then (if truthy ip then detect_printer_model urlopen PRINTER_BY_IP (the ip)
                  else (Inr None, PRINTER_BY_IP))
            else (Inr printer_model, PRINTER_BY_IP)) of
        (Inl e, PRINTER_BY_IP') \<Rightarrow> (Inl e, PRINTER_BY_IP')
      | (Inr printer_model', PRINTER_BY_IP') \<Rightarrow>
          (render_stream printer_model' images top_margin bottom_margin, PRINTER_BY_IP'))"

section \<open>Notions the properties are stated with\<close>

subsection \<open>The job stream as the printer reads it\<close>

text \<open>
  The commands of the raster protocol that a job stream is made of. A row frame carries
  its declared length and its payload; the print information command carries its ten
  parameter bytes (flags, media type, media width, media length, the raster number in 32
  bits little-endian, the starting page byte, a reserved byte).
\<close>

datatype command =
    Init
  | RasterMode byte
  | ModeSettings byte
  | MarginAmount byte byte
  | PrintInformation "byte list"
  | CompressionMode byte
  | RowFrame nat "byte list"
  | PageFeed
  | Print

text \<open>
  Reading one command from the front of a stream: the marker \<open>G\<close> (0x47), a 16-bit
  little-endian length, and as many payload bytes as the length declares; the fixed-size
  commands by their bytes. A stream that ends inside a command is not read.
\<close>

definition read_command :: "byte list \<Rightarrow> (command \<times> byte list) option" where
  "read_command bs =
     (case bs of
        [] \<Rightarrow> None
      | b # r \<Rightarrow>
         if b = 0x0c then Some (PageFeed, r)
         else if b = 0x1a then Some (Print, r)
         else if b = 0x4d then
           (case r of m # r' \<Rightarrow> Some (CompressionMode m, r') | _ \<Rightarrow> None)
         else if b = 0x47 then
           (case r of
              lo # hi # r' \<Rightarrow>
                (let n = unat lo + 256 * unat hi in
                 if length r' < n then None else Some (RowFrame n (take n r'), drop n r'))
            | _ \<Rightarrow> None)
         else if b = 0x1b then
           (case r of
              c # r' \<Rightarrow>
                if c = 0x40 then Some (Init, r')
                else if c = 0x69 then
                  (case r' of
                     k # a \<Rightarrow>
                       if k = 0x61 then
                         (case a of v # a' \<Rightarrow> Some (RasterMode v, a') | _ \<Rightarrow> None)
                       else if k = 0x4d then
                         (case a of v # a' \<Rightarrow> Some (ModeSettings v, a') | _ \<Rightarrow> None)
                       else if k = 0x64 then
                         (case a of v # w # a' \<Rightarrow> Some (MarginAmount v w, a') | _ \<Rightarrow> None)
                       else if k = 0x7a then
                         (if length a < 10 then None
                          else Some (PrintInformation (take 10 a), drop 10 a))
                       else None
                   | _ \<Rightarrow> None)
                else None
            | _ \<Rightarrow> None)
         else None)"

lemma read_command_shorter:
  "read_command bs = Some (c, rest) \<Longrightarrow> length rest < length bs"
  by (auto simp: read_command_def Let_def split: list.splits if_splits)

function parse_stream :: "byte list \<Rightarrow> command list option" where
  "parse_stream bs =
     (if bs = [] then Some []
      else
        (case read_command bs of
           None \<Rightarrow> None
         | Some (c, rest) \<Rightarrow> map_option (\<lambda>cs. c # cs) (parse_stream rest)))"
  by pat_completeness auto
termination
  by (relation "measure length") (auto dest: read_command_shorter)

declare parse_stream.simps [simp del]

text \<open>The bytes of a command.\<close>

fun command_bytes :: "command \<Rightarrow> byte list" where
  "command_bytes Init = [0x1b, 0x40]"
| "command_bytes (RasterMode v) = [0x1b, 0x69, 0x61, v]"
| "command_bytes (ModeSettings v) = [0x1b, 0x69, 0x4d, v]"
| "command_bytes (MarginAmount v w) = [0x1b, 0x69, 0x64, v, w]"
| "command_bytes (PrintInformation info) = [0x1b, 0x69, 0x7a] @ info"
| "command_bytes (CompressionMode m) = [0x4d, m]"
| "command_bytes (RowFrame n payload) = [0x47, word_of_nat n, word_of_nat (n div 256)] @ payload"
| "command_bytes PageFeed = [0x0c]"
| "command_bytes Print = [0x1a]"

text \<open>
  The commands of a job, image by image: the print information and compression mode
  commands, the rows of the top margin, one row frame per column (its payload is the row
  that the rasterizer returns for the column), the rows of the bottom margin; a page feed
  before every image but the first.
\<close>

definition empty_frame :: "nat \<Rightarrow> command" where
  "empty_frame stripe_count = RowFrame stripe_count (replicate stripe_count 0)"

definition column_row :: "int \<Rightarrow> nat \<Rightarrow> image \<Rightarrow> nat \<Rightarrow> byte list" where
  "column_row stripe_size stripe_count img x =
     (case raw_row img (load img) stripe_count (int x) (stripe_size - int (height img)) of
        Inr chunks \<Rightarrow> concat chunks
      | Inl e \<Rightarrow> [])"

definition image_commands :: "int \<Rightarrow> nat \<Rightarrow> int \<Rightarrow> int \<Rightarrow> image \<Rightarrow> command list" where
  "image_commands stripe_size stripe_count top_margin bottom_margin img =
     (let raster_number = int (width img) + top_margin + bottom_margin in
      [PrintInformation
         [0xc0, 0x00, 0x00, 0x00,
          word_of_int raster_number, word_of_int (raster_number div 256),
          word_of_int (raster_number div 65536), word_of_int (raster_number div 16777216),
          0x01, 0x00],
       CompressionMode 0x00]
      @ replicate (nat top_margin) (empty_frame stripe_count)
      @ map (\<lambda>x. RowFrame stripe_count (column_row stripe_size stripe_count img x)) [0..<width img]
      @ replicate (nat top_margin) (empty_frame stripe_count))"

fun job_commands :: "int \<Rightarrow> nat \<Rightarrow> int \<Rightarrow> int \<Rightarrow> bool \<Rightarrow> image list \<Rightarrow> command list" where
  "job_commands stripe_size stripe_count top_margin bottom_margin first [] = []"
| "job_commands stripe_size stripe_count top_margin bottom_margin first (img # images) =
     (if first then [] else [PageFeed])
     @ image_commands stripe_size stripe_count top_margin bottom_margin img
     @ job_commands stripe_size stripe_count top_margin bottom_margin False images"

text \<open>A piece of a stream that reads as a list of commands, whatever follows it.\<close>

definition parses_as :: "byte list \<Rightarrow> command list \<Rightarrow> bool" where
  "parses_as bytes cmds =
     (\<forall>rest. parse_stream (bytes @ rest) = map_option (\<lambda>cs. cmds @ cs) (parse_stream rest))"

subsection \<open>Luminance, dots and the detection URL\<close>

text \<open>
  The luminance that the rasterizer compares with the threshold: the sample itself, or
  the sum of its channels divided by 3.
\<close>

fun luminance :: "color \<Rightarrow> rat" where
  "luminance (Gray c) = of_int c"
| "luminance (Channels cs) = of_int (sum_list cs) / 3"


text \<open>
  The dot of column \<open>x\<close> and image row \<open>y\<close> is printed: the coordinates are inside
  the image and the luminance of the sample is at most 230.
\<close>

definition dot_printed :: "image \<Rightarrow> int \<Rightarrow> int \<Rightarrow> bool" where
  "dot_printed img x y =
     (0 \<le> x \<and> x < int (width img) \<and> 0 \<le> y \<and> y < int (height img)
      \<and> luminance (pixels img (nat x, nat y)) \<le> 230)"

text \<open>One step of the loop over \<^verbatim>\<open>bit_index\<close>, as \<^const>\<open>raw_bits\<close> folds it.\<close>

definition raw_step ::
  "image \<Rightarrow> (int \<times> int \<Rightarrow> py_exn + color) \<Rightarrow> int \<Rightarrow> int \<Rightarrow> nat \<Rightarrow> nat
   \<Rightarrow> py_exn + int \<Rightarrow> py_exn + int" where
  "raw_step img img_bytes x y_offset stripe_idx bit_index acc =
        exn_bind acc (\<lambda>bits.
          (let y = int stripe_idx * 8 + int bit_index - y_offset in
           if x < int (width img) \<and> 0 \<le> y \<and> y < int (height img) then
             exn_bind (img_bytes (x, y)) (\<lambda>color.
               (let px = (case color of
                            Gray c \<Rightarrow> (of_int c :: rat)
                          | Channels cs \<Rightarrow> of_int (sum_list cs) / 3)
                in Inr (bits OR push_bit (7 - bit_index) (if px > 230 then 0 else 1))))
           else Inr bits))"

text \<open>The URL that model detection requests.\<close>

definition admin_url :: "string \<Rightarrow> string" where
  "admin_url ip = ''http://'' @ ip @ ''/admin/default.html''"

subsection \<open>Concrete inputs\<close>

text \<open>
  A black 1 x 1 grayscale image, and a 1 x 1 image whose sample has four channels (an
  opaque light gray with its alpha channel).
\<close>

definition black_pixels :: "nat \<times> nat \<Rightarrow> color" where
  "black_pixels p = Gray 0"

definition black_1x1 :: image where
  "black_1x1 = \<lparr>width = 1, height = 1, pixels = black_pixels\<rparr>"



text \<open>
  A network that refuses the connection, one that answers 401 with the page of a P950NW
  as its body, and one whose connection times out while the response is read; a cache
  with no entry.
\<close>

definition empty_cache :: cache where
  "empty_cache = Map.empty"

definition refusing_network :: network where
  "refusing_network url = Inl URLError"

definition unauthorized_network :: network where
  "unauthorized_network url = Inl (HTTPError 401 ''<title>Brother PT-P950NW</title>'')"

definition stalling_network :: network where
  "stalling_network url = Inl OtherException"

section \<open>Verification\<close>

subsection \<open>The row compressor\<close>

lemma sint_byte_of_int: "- 128 \<le> v \<Longrightarrow> v \<le> 127 \<Longrightarrow> sint (word_of_int v :: byte) = v"
  by (simp add: sint_sbintrunc' signed_take_bit_int_eq_self)

lemma count_run_props:
  "pos + k < length row \<Longrightarrow>
   k \<le> count_run row pos k \<and> pos + count_run row pos k < length row \<and>
   (\<forall>j. k \<le> j \<and> j \<le> count_run row pos k \<longrightarrow> row ! (pos + j) = row ! (pos + k))"
proof (induction row pos k rule: count_run.induct)
  case (1 row pos count)
  show ?case
  proof (cases "pos + count + 1 < length row \<and> row ! (pos + count + 1) = row ! (pos + count)")
    case True
    then have eq: "count_run row pos count = count_run row pos (count + 1)"
      by (subst count_run.simps) simp
    from True have "pos + (count + 1) < length row" by simp
    from "1.IH" [OF True this] have ih:
      "count + 1 \<le> count_run row pos (count + 1)"
      "pos + count_run row pos (count + 1) < length row"
      "\<forall>j. count + 1 \<le> j \<and> j \<le> count_run row pos (count + 1) \<longrightarrow> row ! (pos + j) = row ! (pos + (count + 1))"
      by auto
    have nth: "row ! (pos + j) = row ! (pos + count)" if "count \<le> j" "j \<le> count_run row pos (count + 1)" for j
    proof (cases "j = count")
      case True then show ?thesis by simp
    next
      case False
      with that have "count + 1 \<le> j" by simp
      with ih(3) that have "row ! (pos + j) = row ! (pos + (count + 1))" by blast
      with True show ?thesis by (simp add: add.assoc)
    qed
    show ?thesis unfolding eq
    proof (intro conjI allI impI)
      show "count \<le> count_run row pos (count + 1)" using ih(1) by simp
      show "pos + count_run row pos (count + 1) < length row" using ih(2) .
      fix j assume "count \<le> j \<and> j \<le> count_run row pos (count + 1)"
      then show "row ! (pos + j) = row ! (pos + count)" using nth by blast
    qed
  next
    case False
    have eq: "count_run row pos count = count"
      by (subst count_run.simps) (rule if_not_P [OF False])
    show ?thesis unfolding eq using "1.prems" by auto
  qed
qed


lemma count_run_slice:
  assumes "pos < length row"
  shows "py_slice row pos (pos + count_run row pos 0 + 1) = replicate (count_run row pos 0 + 1) (row ! pos)"
proof -
  from count_run_props [of pos 0 row] assms
  have b: "pos + count_run row pos 0 < length row"
    and e: "\<forall>j. j \<le> count_run row pos 0 \<longrightarrow> row ! (pos + j) = row ! pos"
    by auto
  show ?thesis
    unfolding py_slice_def
  proof (rule nth_equalityI)
    show "length (take (pos + count_run row pos 0 + 1 - pos) (drop pos row))
        = length (replicate (count_run row pos 0 + 1) (row ! pos))"
      using b by simp
  next
    fix i
    assume "i < length (take (pos + count_run row pos 0 + 1 - pos) (drop pos row))"
    then have i: "i \<le> count_run row pos 0" by simp
    then have "take (pos + count_run row pos 0 + 1 - pos) (drop pos row) ! i = row ! (pos + i)"
      using b by simp
    also have "\<dots> = row ! pos" using e i by blast
    also have "\<dots> = replicate (count_run row pos 0 + 1) (row ! pos) ! i"
      using i by (simp only: nth_replicate less_Suc_eq_le Suc_eq_plus1 [symmetric])
    finally show "take (pos + count_run row pos 0 + 1 - pos) (drop pos row) ! i
        = replicate (count_run row pos 0 + 1) (row ! pos) ! i" .
  qed
qed

lemma count_run_bound: "pos < length row \<Longrightarrow> pos + count_run row pos 0 < length row"
  using count_run_props [of pos 0 row] by simp

lemma decode_literal:
  assumes "1 \<le> length bs" "length bs \<le> 128"
  shows "packbits_decode (word_of_int (int (length bs) - 1) # bs @ rest)
         = map_option (\<lambda>out. bs @ out) (packbits_decode rest)"
proof -
  define m :: byte where "m = word_of_int (int (length bs) - 1)"
  have s: "sint m = int (length bs) - 1"
    unfolding m_def using assms by (intro sint_byte_of_int) auto
  have p: "0 \<le> sint m" using s assms by (cases bs) auto
  have n: "nat (sint m) + 1 = length bs" using s assms by (cases bs) auto
  have "packbits_decode (m # bs @ rest)
      = (if length (bs @ rest) < length bs then None
         else map_option (\<lambda>out. take (length bs) (bs @ rest) @ out)
                (packbits_decode (drop (length bs) (bs @ rest))))"
    by (simp only: packbits_decode.simps(2) p if_True n Let_def)
  also have "\<dots> = map_option (\<lambda>out. bs @ out) (packbits_decode rest)"
    by simp
  finally show ?thesis by (simp only: m_def)
qed

lemma decode_run:
  assumes "1 \<le> c" "c \<le> 128"
  shows "packbits_decode (word_of_int (- int c) # b # rest)
         = map_option (\<lambda>out. replicate (c + 1) b @ out) (packbits_decode rest)"
proof -
  define m :: byte where "m = word_of_int (- int c)"
  have s: "sint m = - int c"
    unfolding m_def using assms by (intro sint_byte_of_int) auto
  have p: "\<not> 0 \<le> sint m" using s assms by simp
  have n: "nat (1 - sint m) = c + 1" using s by simp
  have "packbits_decode (m # b # rest)
      = map_option (\<lambda>out. replicate (c + 1) b @ out) (packbits_decode rest)"
    by (simp only: packbits_decode.simps(2) p if_False n list.case)
  then show ?thesis by (simp only: m_def)
qed

lemma flush_ok:
  assumes "us < pos" "pos \<le> us + 128"
  shows "flush_uncompressed row us pos = Inr (word_of_int (int pos - int us - 1) # py_slice row us pos)"
  using assms by (simp add: flush_uncompressed_def exn_bind_def pack_b_def)

lemma slice_length: "b \<le> length row \<Longrightarrow> length (py_slice row a b) = b - a"
  by (simp add: py_slice_def)

lemma slice_drop: "a \<le> b \<Longrightarrow> py_slice row a b @ drop b row = drop a row"
proof -
  assume "a \<le> b"
  then have "drop b row = drop (b - a) (drop a row)" by simp
  then show ?thesis unfolding py_slice_def by (simp only: append_take_drop_id)
qed

lemma decode_flush:
  assumes "us < pos" "pos \<le> length row" "pos \<le> us + 128"
  shows "packbits_decode (word_of_int (int pos - int us - 1) # py_slice row us pos @ rest)
         = map_option (\<lambda>out. py_slice row us pos @ out) (packbits_decode rest)"
proof -
  have l: "length (py_slice row us pos) = pos - us" using assms by (simp add: slice_length)
  have "int pos - int us - 1 = int (length (py_slice row us pos)) - 1"
    using assms l by simp
  then show ?thesis
    using decode_literal [of "py_slice row us pos" rest] assms l by simp
qed

lemma compress_loop_decodes:
  "us \<le> pos \<Longrightarrow> pos \<le> length row \<Longrightarrow> length row \<le> 128 \<Longrightarrow>
   \<exists>chunks. compress_loop row pos us = Inr chunks \<and>
            packbits_decode (concat chunks) = Some (drop us row)"
proof (induction row pos us rule: compress_loop.induct)
  case (1 row pos us)
  show ?case
  proof (cases "pos < length row")
    case False
    with "1.prems" have pl: "pos = length row" by simp
    show ?thesis
    proof (cases "us < pos")
      case True
      have "compress_loop row pos us = Inr [word_of_int (int pos - int us - 1) # py_slice row us pos]"
        using True pl "1.prems" by (subst compress_loop.simps) (simp add: flush_ok exn_bind_def)
      moreover have "packbits_decode (word_of_int (int pos - int us - 1) # py_slice row us pos @ [])
          = Some (drop us row)"
        using True pl "1.prems" slice_drop [of us pos row]
        by (subst decode_flush) auto
      ultimately show ?thesis by simp
    next
      case False
      with "1.prems" pl have "compress_loop row pos us = Inr []"
        by (subst compress_loop.simps) simp
      moreover from False "1.prems" pl have "drop us row = []" by simp
      ultimately show ?thesis by simp
    qed
  next
    case inb: True
    define c where "c = count_run row pos 0"
    show ?thesis
    proof (cases "c > 0")
      case False
      then have eq: "compress_loop row pos us = compress_loop row (pos + 1) us"
        using inb by (subst compress_loop.simps) (simp add: c_def)
      from "1.IH"(2) [OF inb refl] False inb "1.prems"
      show ?thesis unfolding eq by (simp add: c_def)
    next
      case True
      have cb: "pos + c < length row" using count_run_bound [OF inb] by (simp add: c_def)
      with "1.prems" have c128: "c \<le> 128" "1 \<le> c" using True by auto
      have tag: "pack_bB (- int c) (row ! pos) = Inr [word_of_int (- int c), row ! pos]"
        using c128 by (simp add: pack_bB_def)
      define flushed where "flushed = (if us < pos
          then [word_of_int (int pos - int us - 1) # py_slice row us pos] else [])"
      have fl: "(if us < pos then exn_bind (flush_uncompressed row us pos) (\<lambda>c. Inr [c]) else Inr [])
          = Inr flushed"
        using "1.prems" by (simp add: flushed_def flush_ok exn_bind_def)
      have c0: "0 < count_run row pos 0" using True by (simp add: c_def)
      from "1.IH"(1) [OF inb refl c0 fl tag [unfolded c_def]] cb "1.prems"
      obtain rest where rest: "compress_loop row (pos + c + 1) (pos + c + 1) = Inr rest"
        and drest: "packbits_decode (concat rest) = Some (drop (pos + c + 1) row)"
        by (auto simp: c_def)
      have run: "replicate (c + 1) (row ! pos) = py_slice row pos (pos + c + 1)"
        using count_run_slice [OF inb] by (simp add: c_def)
      have res: "compress_loop row pos us = Inr (flushed @ [[word_of_int (- int c), row ! pos]] @ rest)"
        using inb c0 fl tag rest by (subst compress_loop.simps) (simp add: c_def Let_def)
      have d2: "packbits_decode (word_of_int (- int c) # row ! pos # concat rest) = Some (drop pos row)"
        using c128 drest run slice_drop [of pos "pos + c + 1" row]
        by (subst decode_run) auto
      have "packbits_decode (concat (flushed @ [[word_of_int (- int c), row ! pos]] @ rest))
          = Some (drop us row)"
      proof (cases "us < pos")
        case True
        have "packbits_decode (word_of_int (int pos - int us - 1) # py_slice row us pos
            @ (word_of_int (- int c) # row ! pos # concat rest)) = Some (drop us row)"
          using True "1.prems" d2 slice_drop [of us pos row]
          by (subst decode_flush) auto
        then show ?thesis using True by (simp add: flushed_def)
      next
        case False
        with "1.prems" have "us = pos" by simp
        then show ?thesis using d2 by (simp add: flushed_def)
      qed
      with res show ?thesis by blast
    qed
  qed
qed

text \<open>
  C1: for every byte sequence \<open>S\<close> of at most 128 bytes the compressor returns (it
  raises nothing), and decoding the concatenation of its chunks by the PackBits rule
  gives \<open>S\<close> back.
\<close>

theorem compress_tiff_roundtrip:
  "length S \<le> 128 \<Longrightarrow>
   \<exists>chunks. compress_tiff S = Inr chunks \<and> packbits_decode (concat chunks) = Some S"
  using compress_loop_decodes [of 0 0 S] by (simp add: compress_tiff_def)


theorem compress_tiff_roundtrip_witness:
  "length [1, 1, 2 :: byte] \<le> 128 \<and>
   (\<exists>chunks. compress_tiff [1, 1, 2] = Inr chunks \<and> packbits_decode (concat chunks) = Some [1, 1, 2])"
  using compress_tiff_roundtrip [of "[1, 1, 2]"] by simp

lemma count_run_replicate:
  "pos + k < n \<Longrightarrow> count_run (replicate n b) pos k = n - 1 - pos"
proof (induction "replicate n b" pos k rule: count_run.induct)
  case (1 pos count)
  show ?case
  proof (cases "pos + count + 1 < n")
    case True
    then have "count_run (replicate n b) pos count = count_run (replicate n b) pos (count + 1)"
      using "1.prems" by (subst count_run.simps) simp
    also have "\<dots> = n - 1 - pos"
      using True "1.prems" by (intro "1.hyps") auto
    finally show ?thesis .
  next
    case False
    then have "count_run (replicate n b) pos count = count"
      by (subst count_run.simps) simp
    with False "1.prems" show ?thesis by simp
  qed
qed

lemma compress_loop_end: "compress_loop row (length row) (length row) = Inr []"
  by (subst compress_loop.simps) simp

lemma compress_tiff_run:
  assumes "2 \<le> N"
  shows "compress_tiff (replicate N b) =
    (case pack_bB (1 - int N) b of Inl e \<Rightarrow> Inl e | Inr tag \<Rightarrow> Inr [tag])"
proof -
  have c: "count_run (replicate N b) 0 0 = N - 1"
    using assms count_run_replicate [of 0 0 N b] by simp
  have i: "- int (N - 1) = 1 - int N" using assms by simp
  have e: "compress_loop (replicate N b) N N = Inr []"
    using compress_loop_end [of "replicate N b"] by simp
  show ?thesis
    unfolding compress_tiff_def
    using assms by (subst compress_loop.simps) (simp add: c i e split: sum.splits)
qed

lemma compress_tiff_single: "compress_tiff [b] = Inr [[0, b]]"
proof -
  have c: "count_run [b] 0 0 = 0" by (subst count_run.simps) simp
  have "compress_loop [b] 1 0 = Inr [[0, b]]"
    by (subst compress_loop.simps)
       (simp add: flush_uncompressed_def exn_bind_def pack_b_def py_slice_def)
  then show ?thesis
    unfolding compress_tiff_def by (subst compress_loop.simps) (simp add: c)
qed

text \<open>
  C5, amended: for every \<open>N\<close> from 1 to 129 (so for every positive multiple of 8 up
  to 128) compressing \<open>N\<close> zero bytes yields one chunk of exactly two bytes, \<open>1 - N\<close>
  as a signed byte and \<open>0x00\<close>. From 130 zero bytes on, \<open>1 - N\<close> is no signed byte
  and \<^verbatim>\<open>struct.pack\<close> raises: 136 zero bytes are the first multiple of 8 where the
  claim as stated fails.
\<close>

theorem compress_tiff_zeros:
  assumes "1 \<le> N" "N \<le> 129"
  shows "compress_tiff (replicate N 0) = Inr [[word_of_int (1 - int N), 0x00]]
       \<and> sint (word_of_int (1 - int N) :: byte) = 1 - int N"
proof
  show "sint (word_of_int (1 - int N) :: byte) = 1 - int N"
    using assms by (intro sint_byte_of_int) auto
  show "compress_tiff (replicate N 0) = Inr [[word_of_int (1 - int N), 0x00]]"
  proof (cases "N = 1")
    case True
    then show ?thesis by (simp add: compress_tiff_single)
  next
    case False
    with assms have "2 \<le> N" by simp
    then show ?thesis using assms by (simp add: compress_tiff_run pack_bB_def)
  qed
qed

theorem compress_tiff_zeros_witness:
  "(1::nat) \<le> 8 \<and> (8::nat) \<le> 129 \<and> compress_tiff (replicate 8 0) = Inr [[0xf9, 0x00]]
   \<and> sint (0xf9 :: byte) = - 7"
  using compress_tiff_zeros [of 8] by simp

lemma compress_tiff_zeros_overflow:
  "130 \<le> N \<Longrightarrow> compress_tiff (replicate N 0) = Inl StructError"
  by (simp add: compress_tiff_run pack_bB_def)

theorem compress_tiff_zeros_136_counterexample:
  "compress_tiff (replicate 136 0) = Inl StructError"
  by (simp add: compress_tiff_zeros_overflow)

subsection \<open>The row rasterizer\<close>

lemma load_inside:
  "0 \<le> x \<Longrightarrow> x < int (width img) \<Longrightarrow> 0 \<le> y \<Longrightarrow> y < int (height img) \<Longrightarrow>
   load img (x, y) = Inr (pixels img (nat x, nat y))"
  by (simp add: load_def)

lemma raw_bits_fold:
  "raw_bits img img_bytes x y_offset stripe_idx
     = fold (raw_step img img_bytes x y_offset stripe_idx) [0..<8] (Inr 0)"
  unfolding raw_bits_def raw_step_def ..

lemma raw_step_eq:
  assumes "0 \<le> x"
  shows "raw_step img (load img) x y_offset stripe_idx bit_index (Inr bits) =
     Inr (if dot_printed img x (int stripe_idx * 8 + int bit_index - y_offset)
          then bits OR push_bit (7 - bit_index) 1 else bits)"
proof (cases "x < int (width img) \<and> 0 \<le> int stripe_idx * 8 + int bit_index - y_offset
    \<and> int stripe_idx * 8 + int bit_index - y_offset < int (height img)")
  case True
  with assms have l: "load img (x, int stripe_idx * 8 + int bit_index - y_offset)
      = Inr (pixels img (nat x, nat (int stripe_idx * 8 + int bit_index - y_offset)))"
    by (simp add: load_inside)
  show ?thesis
    using True assms
    by (cases "pixels img (nat x, nat (int stripe_idx * 8 + int bit_index - y_offset))")
       (auto simp: raw_step_def exn_bind_def Let_def l dot_printed_def)
next
  case False
  then show ?thesis
    by (auto simp: raw_step_def exn_bind_def Let_def dot_printed_def)
qed

lemma raw_fold_bits:
  assumes "0 \<le> x"
  shows "m \<le> 8 \<Longrightarrow>
   \<exists>v. fold (raw_step img (load img) x y_offset stripe_idx) [0..<m] (Inr 0) = Inr v \<and> 0 \<le> v \<and>
     (\<forall>k. bit v k \<longleftrightarrow>
        (\<exists>i<m. k = 7 - i \<and> dot_printed img x (int stripe_idx * 8 + int i - y_offset)))"
proof (induction m)
  case 0
  then show ?case by simp
next
  case (Suc m)
  define d where "d = (\<lambda>i. dot_printed img x (int stripe_idx * 8 + int i - y_offset))"
  from Suc obtain v where
    f: "fold (raw_step img (load img) x y_offset stripe_idx) [0..<m] (Inr 0) = Inr v"
    and ih: "0 \<le> v" "\<And>k. bit v k \<longleftrightarrow> (\<exists>i<m. k = 7 - i \<and> d i)"
    by (auto simp: d_def)
  have step: "fold (raw_step img (load img) x y_offset stripe_idx) [0..<Suc m] (Inr 0)
      = Inr (if d m then v OR push_bit (7 - m) 1 else v)"
    by (simp add: f d_def raw_step_eq [OF assms])
  have "0 \<le> (if d m then v OR push_bit (7 - m) 1 else v)"
    using ih(1) by simp
  moreover have "bit (if d m then v OR push_bit (7 - m) 1 else v) k
      \<longleftrightarrow> (\<exists>i<Suc m. k = 7 - i \<and> d i)" for k
    by (auto simp: ih(2) bit_or_iff bit_push_bit_iff bit_1_iff bit_exp_iff less_Suc_eq)
  ultimately show ?case
    unfolding step d_def by blast
qed

lemma raw_bits_returns:
  assumes "0 \<le> x"
  shows "\<exists>v. raw_bits img (load img) x y_offset stripe_idx = Inr v \<and> 0 \<le> v \<and> v \<le> 255 \<and>
     (\<forall>k. bit v k \<longleftrightarrow>
        (\<exists>i<8. k = 7 - i \<and> dot_printed img x (int stripe_idx * 8 + int i - y_offset)))"
proof -
  from raw_fold_bits [OF assms, of 8 img y_offset stripe_idx] obtain v where
    r: "raw_bits img (load img) x y_offset stripe_idx = Inr v" and nn: "0 \<le> v"
    and b: "\<And>k. bit v k \<longleftrightarrow>
        (\<exists>i<8. k = 7 - i \<and> dot_printed img x (int stripe_idx * 8 + int i - y_offset))"
    by (auto simp: raw_bits_fold)
  have "take_bit 8 v = v"
    by (rule bit_eqI) (auto simp: bit_take_bit_iff b)
  then have "v < 2 ^ 8"
    by (metis take_bit_int_less_exp)
  then have "v \<le> 255" by simp
  with r nn b show ?thesis by blast
qed

lemma exn_collect_Inr: "exn_collect (map (\<lambda>i. Inr (g i)) xs) = Inr (map g xs)"
  by (induction xs) auto

lemma concat_singletons: "concat (map (\<lambda>i. [g i]) xs) = map g xs"
  by (induction xs) auto

lemma raw_row_dots:
  assumes "0 \<le> x"
  shows "\<exists>chunks. raw_row img (load img) n x y_offset = Inr chunks \<and>
      length (concat chunks) = n \<and>
      (\<forall>byte_index<n. \<forall>bit_index<8.
         bit (concat chunks ! byte_index) (7 - bit_index) \<longleftrightarrow>
           dot_printed img x (int byte_index * 8 + int bit_index - y_offset))"
proof -
  define f where "f = (\<lambda>stripe_idx. projr (raw_bits img (load img) x y_offset stripe_idx))"
  define w where "w = (\<lambda>stripe_idx. word_of_int (f stripe_idx) :: byte)"
  have r: "raw_bits img (load img) x y_offset stripe_idx = Inr (f stripe_idx)"
    and range: "0 \<le> f stripe_idx" "f stripe_idx \<le> 255"
    and bits: "\<And>k. bit (f stripe_idx) k \<longleftrightarrow>
        (\<exists>i<8. k = 7 - i \<and> dot_printed img x (int stripe_idx * 8 + int i - y_offset))"
    for stripe_idx
    using raw_bits_returns [OF assms, of img y_offset stripe_idx]
    by (auto simp: f_def)
  have "exn_bind (raw_bits img (load img) x y_offset stripe_idx) pack_B = Inr [w stripe_idx]"
    for stripe_idx
    by (simp add: r exn_bind_def pack_B_def range w_def)
  then have row: "raw_row img (load img) n x y_offset = Inr (map (\<lambda>stripe_idx. [w stripe_idx]) [0..<n])"
    unfolding raw_row_def by (simp only: exn_collect_Inr)
  have c: "concat (map (\<lambda>stripe_idx. [w stripe_idx]) [0..<n]) = map w [0..<n]"
    by (rule concat_singletons)
  have "bit (w byte_index) (7 - bit_index) \<longleftrightarrow>
      dot_printed img x (int byte_index * 8 + int bit_index - y_offset)"
    if "bit_index < 8" for byte_index bit_index
  proof -
    have "bit (w byte_index) (7 - bit_index) \<longleftrightarrow> bit (f byte_index) (7 - bit_index)"
      by (auto simp: w_def bit_word_of_int_iff)
    also have "\<dots> \<longleftrightarrow> (\<exists>i<8. 7 - bit_index = 7 - i \<and>
        dot_printed img x (int byte_index * 8 + int i - y_offset))"
      by (rule bits)
    also have "\<dots> \<longleftrightarrow> dot_printed img x (int byte_index * 8 + int bit_index - y_offset)"
    proof
      assume "\<exists>i<8. 7 - bit_index = 7 - i \<and>
        dot_printed img x (int byte_index * 8 + int i - y_offset)"
      then obtain i where i: "i < 8" "7 - bit_index = 7 - i"
        "dot_printed img x (int byte_index * 8 + int i - y_offset)" by blast
      with that have "i = bit_index" by arith
      with i show "dot_printed img x (int byte_index * 8 + int bit_index - y_offset)"
        by simp
    next
      assume "dot_printed img x (int byte_index * 8 + int bit_index - y_offset)"
      with that show "\<exists>i<8. 7 - bit_index = 7 - i \<and>
        dot_printed img x (int byte_index * 8 + int i - y_offset)" by blast
    qed
    finally show ?thesis .
  qed
  then show ?thesis
    by (simp add: row c)
qed

lemma raw_row_column:
  "raw_row img (load img) stripe_count (int x) (stripe_size - int (height img)) = Inr chunks
   \<Longrightarrow> concat chunks = column_row stripe_size stripe_count img x"
  by (simp add: column_row_def)

lemma column_row_length: "length (column_row stripe_size stripe_count img x) = stripe_count"
proof -
  have "0 \<le> int x" by simp
  from raw_row_dots [OF this, of img stripe_count "stripe_size - int (height img)"]
  obtain chunks where
    "raw_row img (load img) stripe_count (int x) (stripe_size - int (height img)) = Inr chunks"
    and "length (concat chunks) = stripe_count" by blast
  then show ?thesis by (simp add: column_row_def)
qed




text \<open>More than one width to the left of the image the pixel access raises.\<close>

lemma raw_row_far_column:
  "raw_row black_1x1 (load black_1x1) 1 (- 2) 0 = Inl IndexError"
  by code_simp

subsection \<open>Printer profiles and model detection\<close>

text \<open>
  C7: an absent model and every model name other than the two known ones resolve to the
  default stripe size; \<open>P950NW\<close> resolves to 408 and \<open>9800PCN\<close> to 312, two distinct
  sizes.
\<close>

theorem stripe_size_resolution:
  "(printer_model \<notin> {Some ''P950NW'', Some ''9800PCN''} \<longrightarrow>
      dict_get STRIPE_SIZE printer_model STRIPE_SIZE_DEFAULT = STRIPE_SIZE_DEFAULT)
   \<and> dict_get STRIPE_SIZE (Some ''P950NW'') STRIPE_SIZE_DEFAULT = 408
   \<and> dict_get STRIPE_SIZE (Some ''9800PCN'') STRIPE_SIZE_DEFAULT = 312
   \<and> dict_get STRIPE_SIZE (Some ''P950NW'') STRIPE_SIZE_DEFAULT
       \<noteq> dict_get STRIPE_SIZE (Some ''9800PCN'') STRIPE_SIZE_DEFAULT"
  by (cases printer_model) (auto simp: dict_get_def STRIPE_SIZE_def STRIPE_SIZE_DEFAULT_def)

theorem stripe_size_resolution_witness:
  "None \<notin> {Some ''P950NW'', Some ''9800PCN''}
   \<and> dict_get STRIPE_SIZE None STRIPE_SIZE_DEFAULT = STRIPE_SIZE_DEFAULT
   \<and> Some ''error'' \<notin> {Some ''P950NW'', Some ''9800PCN''}
   \<and> dict_get STRIPE_SIZE (Some ''error'') STRIPE_SIZE_DEFAULT = STRIPE_SIZE_DEFAULT"
  using stripe_size_resolution [of None] stripe_size_resolution [of "Some ''error''"]
  by simp

text \<open>
  C8, amended: when model detection makes its request (no cached model for the address)
  and the request raises a \<^verbatim>\<open>URLError\<close> that is no HTTP error 401, detection
  returns \<open>error\<close> and leaves the cache as it is; an HTTP error 401 is no failure:
  detection does what it does on a response with the same body, and returns the model
  that the body names; an exception of the request that is no \<^verbatim>\<open>URLError\<close> is not
  caught and reaches the caller.
\<close>

theorem detect_failure_sentinel:
  assumes "\<not> truthy (PRINTER_BY_IP ip)"
  shows "(urlopen (admin_url ip) = Inl e \<and> is_URLError e \<and> (\<forall>body. e \<noteq> HTTPError 401 body)
           \<longrightarrow> detect_printer_model urlopen PRINTER_BY_IP ip = (Inr (Some ''error''), PRINTER_BY_IP))
       \<and> (urlopen (admin_url ip) = Inl (HTTPError 401 body)
           \<longrightarrow> detect_printer_model urlopen PRINTER_BY_IP ip
                 = detect_printer_model (\<lambda>url. Inr body) PRINTER_BY_IP ip
             \<and> fst (detect_printer_model urlopen PRINTER_BY_IP ip) =
                 Inr (if bytes_in ''<TITLE>Brother PT-9800PCN</TITLE>'' body then Some ''9800PCN''
                      else if bytes_in ''<title>Brother PT-P950NW</title>'' body then Some ''P950NW''
                      else None))
       \<and> (urlopen (admin_url ip) = Inl e \<and> \<not> is_URLError e
           \<longrightarrow> detect_printer_model urlopen PRINTER_BY_IP ip = (Inl e, PRINTER_BY_IP))"
  using assms
  by (cases e)
     (auto simp: detect_printer_model_def detect_printer_model_uncached_def admin_url_def
        exn_bind_def Let_def)

lemma title_found:
  "(if bytes_in ''<TITLE>Brother PT-9800PCN</TITLE>'' ''<title>Brother PT-P950NW</title>''
    then Some ''9800PCN''
    else if bytes_in ''<title>Brother PT-P950NW</title>'' ''<title>Brother PT-P950NW</title>''
    then Some ''P950NW'' else None) = Some ''P950NW''"
  by simp

theorem detect_failure_sentinel_witness:
  "\<not> truthy (Map.empty ''192.0.2.1'')
   \<and> refusing_network (admin_url ''192.0.2.1'') = Inl URLError \<and> is_URLError URLError
   \<and> detect_printer_model refusing_network Map.empty ''192.0.2.1'' = (Inr (Some ''error''), Map.empty)
   \<and> unauthorized_network (admin_url ''192.0.2.1'') = Inl (HTTPError 401 ''<title>Brother PT-P950NW</title>'')
   \<and> fst (detect_printer_model unauthorized_network Map.empty ''192.0.2.1'') = Inr (Some ''P950NW'')
   \<and> stalling_network (admin_url ''192.0.2.1'') = Inl OtherException
   \<and> \<not> is_URLError OtherException
   \<and> detect_printer_model stalling_network Map.empty ''192.0.2.1'' = (Inl OtherException, Map.empty)"
proof -
  have n: "\<not> truthy ((Map.empty :: cache) ''192.0.2.1'')" by simp
  have r: "refusing_network (admin_url ''192.0.2.1'') = Inl URLError"
    by (simp only: refusing_network_def)
  have u: "unauthorized_network (admin_url ''192.0.2.1'')
      = Inl (HTTPError 401 ''<title>Brother PT-P950NW</title>'')"
    by (simp only: unauthorized_network_def)
  have st: "stalling_network (admin_url ''192.0.2.1'') = Inl OtherException"
    by (simp only: stalling_network_def)
  have i: "is_URLError URLError \<and> (\<forall>body. URLError \<noteq> HTTPError 401 body)" by simp
  have o: "\<not> is_URLError OtherException" by simp
  note t1 = detect_failure_sentinel [where PRINTER_BY_IP = Map.empty and ip = "''192.0.2.1''"
        and urlopen = refusing_network and e = URLError, OF n, THEN conjunct1, THEN mp]
  have a: "detect_printer_model refusing_network Map.empty ''192.0.2.1''
      = (Inr (Some ''error''), Map.empty)"
    by (rule t1) (intro conjI r i [THEN conjunct1] i [THEN conjunct2])
  note t2 = detect_failure_sentinel [where PRINTER_BY_IP = Map.empty and ip = "''192.0.2.1''"
        and urlopen = unauthorized_network and e = URLError
        and body = "''<title>Brother PT-P950NW</title>''", OF n, THEN conjunct2,
        THEN conjunct1, THEN mp, OF u, THEN conjunct2]
  have b: "fst (detect_printer_model unauthorized_network Map.empty ''192.0.2.1'')
      = Inr (Some ''P950NW'')"
    by (simp only: t2 title_found)
  note t3 = detect_failure_sentinel [where PRINTER_BY_IP = Map.empty and ip = "''192.0.2.1''"
        and urlopen = stalling_network and e = OtherException, OF n, THEN conjunct2,
        THEN conjunct2, THEN mp]
  have c: "detect_printer_model stalling_network Map.empty ''192.0.2.1''
      = (Inl OtherException, Map.empty)"
    by (rule t3) (intro conjI st o)
  show ?thesis by (intro conjI) (rule n r u a b st o c i [THEN conjunct1])+
qed

theorem detect_propagates_counterexample:
  "stalling_network (admin_url ''192.0.2.1'') = Inl OtherException
   \<and> detect_printer_model stalling_network empty_cache ''192.0.2.1''
       = (Inl OtherException, empty_cache)"
  by (simp add: stalling_network_def empty_cache_def detect_printer_model_def
      detect_printer_model_uncached_def exn_bind_def)

subsection \<open>The job framer and the printer model\<close>

text \<open>
  C10: with an explicit printer model, \<^const>\<open>render\<close> is \<^const>\<open>render_stream\<close> on
  its images, model and margins and returns the cache untouched: its chunks are the same
  on every network, cache and address.
\<close>

theorem render_explicit_model:
  "render urlopen PRINTER_BY_IP images ip (Some model) top_margin bottom_margin
     = (render_stream (Some model) images top_margin bottom_margin, PRINTER_BY_IP)
   \<and> fst (render urlopen PRINTER_BY_IP images ip (Some model) top_margin bottom_margin)
     = fst (render urlopen' PRINTER_BY_IP' images ip' (Some model) top_margin bottom_margin)"
  by (simp add: render_def)

lemma render_stream_default:
  "printer_model \<notin> {Some ''P950NW'', Some ''9800PCN''} \<Longrightarrow>
   render_stream printer_model images top_margin bottom_margin
     = render_stream (Some ''P950NW'') images top_margin bottom_margin"
  by (cases printer_model)
     (auto simp: render_stream_def dict_get_def STRIPE_SIZE_def STRIPE_SIZE_DEFAULT_def)

lemma detect_refused:
  "detect_printer_model refusing_network Map.empty ip = (Inr (Some ''error''), Map.empty)"
  by (simp add: detect_printer_model_def detect_printer_model_uncached_def refusing_network_def
      exn_bind_def)

text \<open>
  C9: the default stripe size is the one of \<open>P950NW\<close> (408), so rendering with a model
  name that is not in the table, with no model and no address, or with no model and an
  address where detection returns no known model (\<^verbatim>\<open>None\<close>, \<open>error\<close>) gives
  the chunks of rendering with \<open>P950NW\<close>.
\<close>

theorem render_default_model:
  "(model \<notin> {''P950NW'', ''9800PCN''} \<longrightarrow>
      fst (render urlopen PRINTER_BY_IP images ip (Some model) top_margin bottom_margin)
        = fst (render urlopen PRINTER_BY_IP images ip (Some ''P950NW'') top_margin bottom_margin))
   \<and> (\<not> truthy ip \<longrightarrow>
      fst (render urlopen PRINTER_BY_IP images ip None top_margin bottom_margin)
        = fst (render urlopen PRINTER_BY_IP images ip (Some ''P950NW'') top_margin bottom_margin))
   \<and> (truthy ip \<and> fst (detect_printer_model urlopen PRINTER_BY_IP (the ip)) = Inr detected
        \<and> detected \<notin> {Some ''P950NW'', Some ''9800PCN''} \<longrightarrow>
      fst (render urlopen PRINTER_BY_IP images ip None top_margin bottom_margin)
        = fst (render urlopen PRINTER_BY_IP images ip (Some ''P950NW'') top_margin bottom_margin))
   \<and> dict_get STRIPE_SIZE None STRIPE_SIZE_DEFAULT = 408"
proof (intro conjI impI)
  assume "model \<notin> {''P950NW'', ''9800PCN''}"
  then show "fst (render urlopen PRINTER_BY_IP images ip (Some model) top_margin bottom_margin)
        = fst (render urlopen PRINTER_BY_IP images ip (Some ''P950NW'') top_margin bottom_margin)"
    using render_stream_default [of "Some model"] by (simp add: render_def)
next
  assume "\<not> truthy ip"
  then show "fst (render urlopen PRINTER_BY_IP images ip None top_margin bottom_margin)
        = fst (render urlopen PRINTER_BY_IP images ip (Some ''P950NW'') top_margin bottom_margin)"
    using render_stream_default [of None] by (simp add: render_def)
next
  assume a: "truthy ip \<and> fst (detect_printer_model urlopen PRINTER_BY_IP (the ip)) = Inr detected
        \<and> detected \<notin> {Some ''P950NW'', Some ''9800PCN''}"
  then show "fst (render urlopen PRINTER_BY_IP images ip None top_margin bottom_margin)
        = fst (render urlopen PRINTER_BY_IP images ip (Some ''P950NW'') top_margin bottom_margin)"
    using render_stream_default [of detected]
    by (cases "detect_printer_model urlopen PRINTER_BY_IP (the ip)") (auto simp: render_def)
next
  show "dict_get STRIPE_SIZE None STRIPE_SIZE_DEFAULT = 408"
    by (simp add: dict_get_def STRIPE_SIZE_def STRIPE_SIZE_DEFAULT_def)
qed

theorem render_default_model_witness:
  "''error'' \<notin> {''P950NW'', ''9800PCN''}
   \<and> fst (render refusing_network Map.empty [black_1x1] None (Some ''error'') 8 8)
       = fst (render refusing_network Map.empty [black_1x1] None (Some ''P950NW'') 8 8)
   \<and> \<not> truthy None
   \<and> fst (render refusing_network Map.empty [black_1x1] None None 8 8)
       = fst (render refusing_network Map.empty [black_1x1] None (Some ''P950NW'') 8 8)
   \<and> truthy (Some ''192.0.2.1'')
   \<and> fst (detect_printer_model refusing_network Map.empty ''192.0.2.1'') = Inr (Some ''error'')
   \<and> fst (render refusing_network Map.empty [black_1x1] (Some ''192.0.2.1'') None 8 8)
       = fst (render refusing_network Map.empty [black_1x1] (Some ''192.0.2.1'') (Some ''P950NW'') 8 8)"
proof -
  have m: "''error'' \<notin> {''P950NW'', ''9800PCN''}" by simp
  have n: "\<not> truthy None" by simp
  have t: "truthy (Some ''192.0.2.1'')" by simp
  have d: "fst (detect_printer_model refusing_network Map.empty (the (Some ''192.0.2.1'')))
      = Inr (Some ''error'')"
    by (simp add: detect_refused)
  have k: "Some ''error'' \<notin> {Some ''P950NW'', Some ''9800PCN''}" by simp
  note a = render_default_model [where model = "''error''" and urlopen = refusing_network
      and PRINTER_BY_IP = Map.empty and images = "[black_1x1]" and ip = None
      and top_margin = 8 and bottom_margin = 8 and detected = None]
  note b = render_default_model [where model = "''error''" and urlopen = refusing_network
      and PRINTER_BY_IP = Map.empty and images = "[black_1x1]" and ip = "Some ''192.0.2.1''"
      and top_margin = 8 and bottom_margin = 8 and detected = "Some ''error''"]
  have 1: "fst (render refusing_network Map.empty [black_1x1] None (Some ''error'') 8 8)
       = fst (render refusing_network Map.empty [black_1x1] None (Some ''P950NW'') 8 8)"
    by (rule a [THEN conjunct1, THEN mp, OF m])
  have 2: "fst (render refusing_network Map.empty [black_1x1] None None 8 8)
       = fst (render refusing_network Map.empty [black_1x1] None (Some ''P950NW'') 8 8)"
    by (rule a [THEN conjunct2, THEN conjunct1, THEN mp, OF n])
  have 3: "fst (render refusing_network Map.empty [black_1x1] (Some ''192.0.2.1'') None 8 8)
       = fst (render refusing_network Map.empty [black_1x1] (Some ''192.0.2.1'') (Some ''P950NW'') 8 8)"
    by (rule b [THEN conjunct2, THEN conjunct2, THEN conjunct1, THEN mp]) (intro conjI t d k)
  have d': "fst (detect_printer_model refusing_network Map.empty ''192.0.2.1'') = Inr (Some ''error'')"
    by (simp add: detect_refused)
  show ?thesis
    by (intro conjI) (rule m 1 n 2 t d' 3)+
qed

subsection \<open>Reading and writing commands\<close>

lemma le16: "n \<le> 65535 \<Longrightarrow>
  unat (word_of_int (int n) :: byte) + 256 * unat (word_of_int (int n div 256) :: byte) = n"
proof -
  assume n: "n \<le> 65535"
  have a: "(word_of_int (int n) :: byte) = of_nat n" by simp
  have "int n div 256 = int (n div 256)" by (simp add: zdiv_int)
  then have b: "(word_of_int (int n div 256) :: byte) = of_nat (n div 256)"
    by (simp only: of_int_of_nat_eq)
  have "n div 256 < 256" using n by simp
  then show ?thesis
    unfolding a b by (simp add: unat_of_nat)
qed

lemma le16_nat: "n \<le> 65535 \<Longrightarrow>
  unat (word_of_nat n :: byte) + 256 * unat (word_of_int (int n div 256) :: byte) = n"
  using le16 [of n] by simp

lemma le16_inverse:
  "(word_of_nat (unat lo + 256 * unat hi) :: byte) = lo"
  "(word_of_nat ((unat lo + 256 * unat hi) div 256) :: byte) = hi"
proof -
  have "(word_of_nat (unat lo + 256 * unat hi) :: byte) = lo + 256 * hi"
    by simp
  also have "(256 :: byte) = 0" by simp
  finally show "(word_of_nat (unat lo + 256 * unat hi) :: byte) = lo" by simp
  have "unat lo < 256" using unsigned_less [of lo, where ?'a = nat] by simp
  then have "(unat lo + 256 * unat hi) div 256 = unat hi" by simp
  then show "(word_of_nat ((unat lo + 256 * unat hi) div 256) :: byte) = hi" by simp
qed

lemma read_row_frame:
  assumes "read_command (0x47 # r) = Some (c, rest)"
  shows "0x47 # r = command_bytes c @ rest"
proof -
  from assms obtain lo hi r' where r: "r = lo # hi # r'"
    by (auto simp: read_command_def split: list.splits)
  define n where "n = unat lo + 256 * unat hi"
  from assms have c: "c = RowFrame n (take n r')" and rest: "rest = drop n r'"
    by (auto simp: read_command_def r Let_def n_def split: if_splits)
  have "command_bytes c @ rest = [0x47, word_of_nat n, word_of_nat (n div 256)] @ r'"
    by (simp add: c rest)
  also have "\<dots> = 0x47 # r"
    unfolding n_def by (simp only: le16_inverse r append_Cons append_Nil)
  finally show ?thesis by simp
qed

lemma read_command_bytes:
  assumes "read_command bs = Some (c, rest)"
  shows "bs = command_bytes c @ rest"
proof (cases bs)
  case Nil
  with assms show ?thesis by (simp add: read_command_def)
next
  case (Cons b r)
  show ?thesis
  proof (cases "b = 0x47")
    case True
    with assms Cons have "read_command (0x47 # r) = Some (c, rest)" by simp
    from read_row_frame [OF this] True Cons show ?thesis by simp
  next
    case False
    with assms Cons show ?thesis
      by (auto simp: read_command_def split: list.splits if_splits)
  qed
qed

lemma parse_stream_bytes:
  "parse_stream bs = Some cmds \<Longrightarrow> concat (map command_bytes cmds) = bs"
proof (induction bs arbitrary: cmds rule: parse_stream.induct)
  case (1 bs)
  show ?case
  proof (cases "bs = []")
    case True
    with "1.prems" show ?thesis by (subst (asm) parse_stream.simps) simp
  next
    case False
    from "1.prems" False obtain c rest cs where
      rc: "read_command bs = Some (c, rest)" and ps: "parse_stream rest = Some cs"
      and cm: "cmds = c # cs"
      by (subst (asm) parse_stream.simps) (auto split: option.splits)
    from "1.IH" [OF False rc [symmetric, THEN sym] refl ps]
    have "concat (map command_bytes cs) = rest" .
    with read_command_bytes [OF rc] cm show ?thesis by simp
  qed
qed

lemma parses_as_Nil: "parses_as [] []"
  by (simp add: parses_as_def option.map_ident)

lemma parses_as_append:
  "parses_as b1 c1 \<Longrightarrow> parses_as b2 c2 \<Longrightarrow> parses_as (b1 @ b2) (c1 @ c2)"
  by (simp add: parses_as_def option.map_comp comp_def)

lemma parses_as_one:
  assumes "\<And>rest. read_command (bytes @ rest) = Some (c, rest)" "bytes \<noteq> []"
  shows "parses_as bytes [c]"
  unfolding parses_as_def
proof
  fix rest
  show "parse_stream (bytes @ rest) = map_option (\<lambda>cs. [c] @ cs) (parse_stream rest)"
    using assms by (subst parse_stream.simps) (cases "parse_stream rest", simp_all)
qed

lemma parses_as_replicate:
  "parses_as b [c] \<Longrightarrow> parses_as (concat (replicate k b)) (replicate k c)"
proof (induction k)
  case 0
  show ?case by (simp add: parses_as_Nil)
next
  case (Suc k)
  from parses_as_append [OF Suc.prems Suc.IH [OF Suc.prems]]
  show ?case by simp
qed

lemma parses_as_concat_map:
  "(\<And>x. x \<in> set xs \<Longrightarrow> parses_as (f x) [g x]) \<Longrightarrow> parses_as (concat (map f xs)) (map g xs)"
proof (induction xs)
  case Nil
  show ?case by (simp add: parses_as_Nil)
next
  case (Cons x xs)
  have "parses_as (f x) [g x]" by (rule Cons.prems) simp
  moreover have "parses_as (concat (map f xs)) (map g xs)"
    by (rule Cons.IH) (simp add: Cons.prems)
  ultimately have "parses_as (f x @ concat (map f xs)) ([g x] @ map g xs)"
    by (rule parses_as_append)
  then show ?case by simp
qed

lemma parses_as_parse: "parses_as bytes cmds \<Longrightarrow> parse_stream bytes = Some cmds"
proof -
  assume "parses_as bytes cmds"
  then have "parse_stream (bytes @ []) = map_option (\<lambda>cs. cmds @ cs) (parse_stream [])"
    unfolding parses_as_def by blast
  moreover have "parse_stream [] = Some []" by (subst parse_stream.simps) simp
  ultimately show ?thesis by simp
qed

lemma parses_PageFeed: "parses_as [0x0c] [PageFeed]"
  by (rule parses_as_one) (simp_all add: read_command_def)

lemma parses_Print: "parses_as [0x1a] [Print]"
  by (rule parses_as_one) (simp_all add: read_command_def)

lemma parses_CompressionMode: "parses_as [0x4d, m] [CompressionMode m]"
  by (rule parses_as_one) (simp_all add: read_command_def)

lemma parses_Init: "parses_as [0x1b, 0x40] [Init]"
  by (rule parses_as_one) (simp_all add: read_command_def)

lemma parses_RasterMode: "parses_as [0x1b, 0x69, 0x61, v] [RasterMode v]"
  by (rule parses_as_one) (simp_all add: read_command_def)

lemma parses_ModeSettings: "parses_as [0x1b, 0x69, 0x4d, v] [ModeSettings v]"
  by (rule parses_as_one) (simp_all add: read_command_def)

lemma parses_MarginAmount: "parses_as [0x1b, 0x69, 0x64, v, w] [MarginAmount v w]"
  by (rule parses_as_one) (simp_all add: read_command_def)

lemma parses_PrintInformation:
  "length info = 10 \<Longrightarrow> parses_as ([0x1b, 0x69, 0x7a] @ info) [PrintInformation info]"
  by (rule parses_as_one) (simp_all add: read_command_def)

lemma parses_RowFrame:
  assumes "length payload = n" "n \<le> 65535"
  shows "parses_as ([0x47, word_of_int (int n), word_of_int (int n div 256)] @ payload)
           [RowFrame n payload]"
  by (rule parses_as_one) (simp_all add: read_command_def le16_nat [OF assms(2)] assms(1))

subsection \<open>The job framer\<close>

lemma stripe_size_cases:
  "dict_get STRIPE_SIZE printer_model STRIPE_SIZE_DEFAULT = 408
   \<or> dict_get STRIPE_SIZE printer_model STRIPE_SIZE_DEFAULT = 312"
  by (cases printer_model) (auto simp: dict_get_def STRIPE_SIZE_def STRIPE_SIZE_DEFAULT_def)

lemma empty_row_simple:
  "stripe_count \<le> 65535 \<Longrightarrow>
   empty_row stripe_count False =
     Inr ([0x47, word_of_int (int stripe_count), word_of_int (int stripe_count div 256)]
          @ replicate stripe_count 0)"
  by (simp add: empty_row_def pack_H_def exn_bind_def)

lemma parses_empty_row:
  assumes "stripe_count \<le> 65535" "empty_row stripe_count False = Inr frame"
  shows "parses_as (bytes_mul frame k) (replicate (nat k) (empty_frame stripe_count))"
proof -
  have "frame = [0x47, word_of_int (int stripe_count), word_of_int (int stripe_count div 256)]
          @ replicate stripe_count 0"
    using assms empty_row_simple by simp
  then have "parses_as frame [empty_frame stripe_count]"
    unfolding empty_frame_def using assms(1) by (simp only: parses_RowFrame length_replicate)
  then show ?thesis
    unfolding bytes_mul_def by (rule parses_as_replicate)
qed

lemma render_column_simple:
  assumes "stripe_count \<le> 65535"
  shows "render_column img (load img) stripe_size stripe_count (int x) =
     Inr [[0x47, word_of_int (int stripe_count), word_of_int (int stripe_count div 256)],
          column_row stripe_size stripe_count img x]"
proof -
  have "0 \<le> int x" by simp
  from raw_row_dots [OF this, of img stripe_count "stripe_size - int (height img)"]
  obtain chunks where
    r: "raw_row img (load img) stripe_count (int x) (stripe_size - int (height img)) = Inr chunks"
    and l: "length (concat chunks) = stripe_count" by blast
  have c: "concat chunks = column_row stripe_size stripe_count img x"
    by (rule raw_row_column [OF r])
  show ?thesis
    unfolding render_column_def Let_def r
    using assms l by (simp add: exn_bind_def USE_TIFF_def pack_H_def c)
qed

lemma parses_column:
  assumes "stripe_count \<le> 65535"
  shows "parses_as
     (concat [[0x47, word_of_int (int stripe_count), word_of_int (int stripe_count div 256)],
              column_row stripe_size stripe_count img x])
     [RowFrame stripe_count (column_row stripe_size stripe_count img x)]"
proof -
  have l: "length (column_row stripe_size stripe_count img x) = stripe_count"
    by (rule column_row_length)
  from parses_RowFrame [OF l assms] show ?thesis by simp
qed

lemma print_information_cases:
  "print_information raster_number first =
     (if 0 \<le> raster_number \<and> raster_number \<le> 4294967295
      then Inr ([0x1b, 0x69, 0x7a] @
          [0xc0, 0x00, 0x00, 0x00,
           word_of_int raster_number, word_of_int (raster_number div 256),
           word_of_int (raster_number div 65536), word_of_int (raster_number div 16777216),
           if first then 0x00 else 0x01, 0x00])
      else Inl StructError)"
  by (simp add: print_information_def pack_I_def exn_bind_def)

lemma render_image_simple:
  assumes "stripe_count \<le> 65535"
    and "0 \<le> int (width img) + top_margin + bottom_margin"
    and "int (width img) + top_margin + bottom_margin \<le> 4294967295"
  shows "render_image stripe_size stripe_count top_margin bottom_margin first img =
     Inr ([[0x1b, 0x69, 0x7a] @
          [0xc0, 0x00, 0x00, 0x00,
           word_of_int (int (width img) + top_margin + bottom_margin),
           word_of_int ((int (width img) + top_margin + bottom_margin) div 256),
           word_of_int ((int (width img) + top_margin + bottom_margin) div 65536),
           word_of_int ((int (width img) + top_margin + bottom_margin) div 16777216),
           if first then 0x00 else 0x01, 0x00],
          [0x4d, 0x00],
          bytes_mul ([0x47, word_of_int (int stripe_count), word_of_int (int stripe_count div 256)]
                     @ replicate stripe_count 0) top_margin]
         @ concat (map (\<lambda>x. [[0x47, word_of_int (int stripe_count),
                                 word_of_int (int stripe_count div 256)],
                               column_row stripe_size stripe_count img x]) [0..<width img])
         @ [bytes_mul ([0x47, word_of_int (int stripe_count), word_of_int (int stripe_count div 256)]
                     @ replicate stripe_count 0) top_margin])"
proof -
  have cols: "exn_collect (map (\<lambda>x. render_column img (load img) stripe_size stripe_count (int x))
                                 [0..<width img])
      = Inr (map (\<lambda>x. [[0x47, word_of_int (int stripe_count),
                                 word_of_int (int stripe_count div 256)],
                               column_row stripe_size stripe_count img x]) [0..<width img])"
    by (simp only: render_column_simple [OF assms(1)] exn_collect_Inr)
  show ?thesis
    unfolding render_image_def Let_def cols
    using assms
    by (simp add: print_information_cases empty_row_simple exn_bind_def USE_TIFF_def)
qed

lemma render_image_error:
  assumes "\<not> (0 \<le> int (width img) + top_margin + bottom_margin
             \<and> int (width img) + top_margin + bottom_margin \<le> 4294967295)"
  shows "render_image stripe_size stripe_count top_margin bottom_margin first img = Inl StructError"
proof -
  have "print_information (int (width img) + top_margin + bottom_margin) first = Inl StructError"
    using assms by (auto simp: print_information_cases)
  then show ?thesis
    by (simp only: render_image_def Let_def exn_bind_def sum.case)
qed

lemma concat_column_chunks:
  "concat (concat (map (\<lambda>x. [h, r x]) xs)) = concat (map (\<lambda>x. concat [h, r x]) xs)"
  by (induction xs) auto

lemma parses_render_image:
  assumes sc: "stripe_count \<le> 65535"
    and r: "render_image stripe_size stripe_count top_margin bottom_margin False img = Inr block"
  shows "parses_as (concat block)
           (image_commands stripe_size stripe_count top_margin bottom_margin img)"
proof -
  define rn where "rn = int (width img) + top_margin + bottom_margin"
  define info :: "byte list" where "info =
     [0xc0, 0x00, 0x00, 0x00, word_of_int rn, word_of_int (rn div 256),
      word_of_int (rn div 65536), word_of_int (rn div 16777216), 0x01, 0x00]"
  define frame :: "byte list" where "frame =
     [0x47, word_of_int (int stripe_count), word_of_int (int stripe_count div 256)]
     @ replicate stripe_count 0"
  define col where "col = (\<lambda>x. concat
     [[0x47, word_of_int (int stripe_count), word_of_int (int stripe_count div 256)],
      column_row stripe_size stripe_count img x])"
  have range: "0 \<le> rn \<and> rn \<le> 4294967295"
  proof (rule ccontr)
    assume "\<not> (0 \<le> rn \<and> rn \<le> 4294967295)"
    then have "render_image stripe_size stripe_count top_margin bottom_margin False img
        = Inl StructError"
      unfolding rn_def by (rule render_image_error)
    with r show False by simp
  qed
  have "render_image stripe_size stripe_count top_margin bottom_margin False img =
      Inr ([[0x1b, 0x69, 0x7a] @ info, [0x4d, 0x00], bytes_mul frame top_margin]
           @ concat (map (\<lambda>x. [[0x47, word_of_int (int stripe_count),
                                 word_of_int (int stripe_count div 256)],
                               column_row stripe_size stripe_count img x]) [0..<width img])
           @ [bytes_mul frame top_margin])"
    using render_image_simple [OF sc, of img top_margin bottom_margin stripe_size False] range
    by (simp add: rn_def info_def frame_def)
  with r have block: "concat block =
      ([0x1b, 0x69, 0x7a] @ info) @ [0x4d, 0x00] @ bytes_mul frame top_margin
      @ concat (map col [0..<width img]) @ bytes_mul frame top_margin"
    by (auto simp: concat_column_chunks col_def)
  have e: "empty_row stripe_count False = Inr frame"
    unfolding frame_def by (rule empty_row_simple [OF sc])
  have p1: "parses_as ([0x1b, 0x69, 0x7a] @ info) [PrintInformation info]"
    by (rule parses_PrintInformation) (simp add: info_def)
  have p2: "parses_as [0x4d, 0x00] [CompressionMode 0x00]"
    by (rule parses_CompressionMode)
  have p3: "parses_as (bytes_mul frame top_margin)
      (replicate (nat top_margin) (empty_frame stripe_count))"
    by (rule parses_empty_row [OF sc e])
  have p4: "parses_as (concat (map col [0..<width img]))
      (map (\<lambda>x. RowFrame stripe_count (column_row stripe_size stripe_count img x)) [0..<width img])"
    unfolding col_def by (rule parses_as_concat_map) (rule parses_column [OF sc])
  have "parses_as (concat block)
      ([PrintInformation info] @ [CompressionMode 0x00]
       @ replicate (nat top_margin) (empty_frame stripe_count)
       @ map (\<lambda>x. RowFrame stripe_count (column_row stripe_size stripe_count img x)) [0..<width img]
       @ replicate (nat top_margin) (empty_frame stripe_count))"
    unfolding block by (intro parses_as_append p1 p2 p3 p4)
  then show ?thesis
    by (simp add: image_commands_def Let_def info_def rn_def)
qed

lemma render_images_Cons:
  "render_images stripe_size stripe_count top_margin bottom_margin first (img # images) =
     (case render_image stripe_size stripe_count top_margin bottom_margin False img of
        Inl e \<Rightarrow> Inl e
      | Inr block \<Rightarrow>
         (case render_images stripe_size stripe_count top_margin bottom_margin False images of
            Inl e \<Rightarrow> Inl e
          | Inr rest \<Rightarrow> Inr ((if first then [] else [[0x0c]]) @ block @ rest)))"
  by (cases first) simp_all

lemma parses_render_images:
  "stripe_count \<le> 65535 \<Longrightarrow>
   render_images stripe_size stripe_count top_margin bottom_margin first images = Inr chunks \<Longrightarrow>
   parses_as (concat chunks)
     (job_commands stripe_size stripe_count top_margin bottom_margin first images)"
proof (induction images arbitrary: first chunks)
  case Nil
  then show ?case by (simp add: parses_as_Nil)
next
  case (Cons img images)
  from Cons.prems(2) obtain block rest where
    b: "render_image stripe_size stripe_count top_margin bottom_margin False img = Inr block"
    and r: "render_images stripe_size stripe_count top_margin bottom_margin False images = Inr rest"
    and c: "chunks = (if first then [] else [[0x0c]]) @ block @ rest"
    unfolding render_images_Cons by (auto split: sum.splits)
  have p0: "parses_as (concat (if first then [] else [[0x0c]])) (if first then [] else [PageFeed])"
    by (simp add: parses_as_Nil parses_PageFeed)
  have p1: "parses_as (concat block)
      (image_commands stripe_size stripe_count top_margin bottom_margin img)"
    by (rule parses_render_image [OF Cons.prems(1) b])
  have p2: "parses_as (concat rest)
      (job_commands stripe_size stripe_count top_margin bottom_margin False images)"
    by (rule Cons.IH [OF Cons.prems(1) r])
  have "parses_as (concat (if first then [] else [[0x0c]]) @ concat block @ concat rest)
      ((if first then [] else [PageFeed])
       @ image_commands stripe_size stripe_count top_margin bottom_margin img
       @ job_commands stripe_size stripe_count top_margin bottom_margin False images)"
    by (intro parses_as_append p0 p1 p2)
  then show ?case by (simp add: c)
qed

text \<open>
  A stream that \<^const>\<open>render_stream\<close> produces reads as the four commands of the
  preamble, the commands of the job and the final print command.
\<close>

lemma parses_render_stream:
  assumes "render_stream printer_model images top_margin bottom_margin = Inr chunks"
  shows "parse_stream (concat chunks) =
     Some ([Init, RasterMode 0x01, ModeSettings 0x00, MarginAmount 0x00 0x00]
           @ job_commands (dict_get STRIPE_SIZE printer_model STRIPE_SIZE_DEFAULT)
               (nat (dict_get STRIPE_SIZE printer_model STRIPE_SIZE_DEFAULT div 8))
               top_margin bottom_margin True images
           @ [Print])"
proof -
  define ss where "ss = dict_get STRIPE_SIZE printer_model STRIPE_SIZE_DEFAULT"
  define sc where "sc = nat (ss div 8)"
  have ss: "ss = 408 \<or> ss = 312" unfolding ss_def by (rule stripe_size_cases)
  then have m: "ss mod 8 = 0" and sc: "sc \<le> 65535" by (auto simp: sc_def)
  from assms m obtain blocks where
    b: "render_images ss sc top_margin bottom_margin True images = Inr blocks"
    and c: "chunks = [[0x1b, 0x40], [0x1b, 0x69, 0x61, 0x01], [0x1b, 0x69, 0x4d, 0x00],
                    [0x1b, 0x69, 0x64, 0x00, 0x00]] @ blocks @ [[0x1a]]"
    by (auto simp: render_stream_def Let_def exn_bind_def ss_def [symmetric] sc_def [symmetric]
        split: sum.splits)
  have pb: "parses_as (concat blocks) (job_commands ss sc top_margin bottom_margin True images)"
    by (rule parses_render_images [OF sc b])
  have "parses_as ([0x1b, 0x40] @ [0x1b, 0x69, 0x61, 0x01] @ [0x1b, 0x69, 0x4d, 0x00]
        @ [0x1b, 0x69, 0x64, 0x00, 0x00] @ concat blocks @ [0x1a])
      ([Init] @ [RasterMode 0x01] @ [ModeSettings 0x00] @ [MarginAmount 0x00 0x00]
        @ job_commands ss sc top_margin bottom_margin True images @ [Print])"
    by (intro parses_as_append parses_Init parses_RasterMode parses_ModeSettings
        parses_MarginAmount pb parses_Print)
  then have "parse_stream (concat chunks) =
      Some ([Init] @ [RasterMode 0x01] @ [ModeSettings 0x00] @ [MarginAmount 0x00 0x00]
        @ job_commands ss sc top_margin bottom_margin True images @ [Print])"
    unfolding c by (intro parses_as_parse) simp
  then show ?thesis by (simp add: ss_def sc_def)
qed

text \<open>
  \<^const>\<open>render_stream\<close> returns whenever the raster number of every image fits its
  32-bit field.
\<close>

lemma render_images_returns:
  "stripe_count \<le> 65535 \<Longrightarrow>
   \<forall>img\<in>set images. 0 \<le> int (width img) + top_margin + bottom_margin
       \<and> int (width img) + top_margin + bottom_margin \<le> 4294967295 \<Longrightarrow>
   \<exists>chunks. render_images stripe_size stripe_count top_margin bottom_margin first images = Inr chunks"
proof (induction images arbitrary: first)
  case Nil
  show ?case by simp
next
  case (Cons img images)
  from Cons.prems have "\<exists>block. render_image stripe_size stripe_count top_margin bottom_margin False img = Inr block"
    using render_image_simple [of stripe_count img top_margin bottom_margin stripe_size False]
    by simp
  moreover from Cons.IH [OF Cons.prems(1), of False] Cons.prems(2)
  have "\<exists>rest. render_images stripe_size stripe_count top_margin bottom_margin False images = Inr rest"
    by simp
  ultimately show ?case
    unfolding render_images_Cons by auto
qed

lemma render_stream_returns:
  assumes "\<forall>img\<in>set images. 0 \<le> int (width img) + top_margin + bottom_margin
       \<and> int (width img) + top_margin + bottom_margin \<le> 4294967295"
  shows "\<exists>chunks. render_stream printer_model images top_margin bottom_margin = Inr chunks"
proof -
  define ss where "ss = dict_get STRIPE_SIZE printer_model STRIPE_SIZE_DEFAULT"
  have ss: "ss = 408 \<or> ss = 312" unfolding ss_def by (rule stripe_size_cases)
  then have m: "ss mod 8 = 0" and sc: "nat (ss div 8) \<le> 65535" by auto
  from render_images_returns [OF sc assms, of ss True]
  obtain blocks where "render_images ss (nat (ss div 8)) top_margin bottom_margin True images = Inr blocks"
    by blast
  then show ?thesis
    using m by (simp add: render_stream_def Let_def exn_bind_def ss_def [symmetric])
qed

lemma render_resolved:
  assumes "fst (render urlopen PRINTER_BY_IP images ip printer_model top_margin bottom_margin) = Inr chunks"
  shows "\<exists>printer_model'.
       (printer_model \<noteq> None \<longrightarrow> printer_model' = printer_model)
     \<and> (printer_model = None \<and> \<not> truthy ip \<longrightarrow> printer_model' = None)
     \<and> (printer_model = None \<and> truthy ip \<longrightarrow>
           fst (detect_printer_model urlopen PRINTER_BY_IP (the ip)) = Inr printer_model')
     \<and> render_stream printer_model' images top_margin bottom_margin = Inr chunks"
  using assms
  by (auto simp: render_def split: if_splits prod.splits sum.splits)

lemma render_no_model:
  "\<not> truthy ip \<Longrightarrow>
   fst (render urlopen PRINTER_BY_IP images ip None top_margin bottom_margin)
     = render_stream None images top_margin bottom_margin"
  by (simp add: render_def)

lemma stripe_size_None: "dict_get STRIPE_SIZE None STRIPE_SIZE_DEFAULT = 408"
  by (simp add: dict_get_def STRIPE_SIZE_def STRIPE_SIZE_DEFAULT_def)

lemma render_result:
  assumes "fst (render urlopen PRINTER_BY_IP images ip printer_model top_margin bottom_margin) = Inr chunks"
  shows "\<exists>printer_model'. (printer_model \<noteq> None \<longrightarrow> printer_model' = printer_model)
     \<and> render_stream printer_model' images top_margin bottom_margin = Inr chunks"
  using assms
  by (auto simp: render_def split: if_splits prod.splits sum.splits)

lemma render_explicit:
  "fst (render urlopen PRINTER_BY_IP images ip (Some model) top_margin bottom_margin)
     = render_stream (Some model) images top_margin bottom_margin"
  by (simp add: render_def)

lemma stripe_size_9800: "dict_get STRIPE_SIZE (Some ''9800PCN'') STRIPE_SIZE_DEFAULT = 312"
  by (simp add: dict_get_def STRIPE_SIZE_def)

lemma stripe_size_P950: "dict_get STRIPE_SIZE (Some ''P950NW'') STRIPE_SIZE_DEFAULT = 408"
  by (simp add: dict_get_def STRIPE_SIZE_def)

lemma image_commands_rows:
  "RowFrame n payload \<in> set (image_commands stripe_size stripe_count top_margin bottom_margin img)
   \<Longrightarrow> length payload = n \<and> n = stripe_count"
  by (auto simp: image_commands_def Let_def empty_frame_def column_row_length)

lemma job_commands_rows:
  "RowFrame n payload \<in> set (job_commands stripe_size stripe_count top_margin bottom_margin first images)
   \<Longrightarrow> length payload = n \<and> n = stripe_count"
  by (induction images arbitrary: first) (auto dest: image_commands_rows split: if_splits)

text \<open>
  C4: every stream that \<^const>\<open>render\<close> produces reads as a list of commands and is the
  concatenation of their bytes; every row frame in it is the marker \<open>G\<close>, its length
  in 16 bits little-endian and a payload of exactly the declared length, and the declared
  length is the stripe byte count of the printer model in use (the stripe size in dots
  divided by 8): \<^const>\<open>render\<close> runs in simple mode only. The model in use is the one
  passed; with none passed it is \<^verbatim>\<open>None\<close> when no address is given, and what
  detection returns for the address otherwise.
\<close>

theorem row_frames_well_formed:
  assumes "fst (render urlopen PRINTER_BY_IP images ip printer_model top_margin bottom_margin)
             = Inr chunks"
  shows "\<exists>printer_model' cmds.
           (printer_model \<noteq> None \<longrightarrow> printer_model' = printer_model)
         \<and> (printer_model = None \<and> \<not> truthy ip \<longrightarrow> printer_model' = None)
         \<and> (printer_model = None \<and> truthy ip \<longrightarrow>
               fst (detect_printer_model urlopen PRINTER_BY_IP (the ip)) = Inr printer_model')
         \<and> parse_stream (concat chunks) = Some cmds
         \<and> concat (map command_bytes cmds) = concat chunks
         \<and> (\<forall>c\<in>set cmds. \<forall>n payload. c = RowFrame n payload \<longrightarrow>
               command_bytes c = [0x47, word_of_nat n, word_of_nat (n div 256)] @ payload
             \<and> length payload = n
             \<and> int n * 8 = dict_get STRIPE_SIZE printer_model' STRIPE_SIZE_DEFAULT)"
proof -
  from render_resolved [OF assms] obtain pm where
    pm: "printer_model \<noteq> None \<longrightarrow> pm = printer_model"
      "printer_model = None \<and> \<not> truthy ip \<longrightarrow> pm = None"
      "printer_model = None \<and> truthy ip \<longrightarrow>
           fst (detect_printer_model urlopen PRINTER_BY_IP (the ip)) = Inr pm"
    and r: "render_stream pm images top_margin bottom_margin = Inr chunks" by blast
  define ss where "ss = dict_get STRIPE_SIZE pm STRIPE_SIZE_DEFAULT"
  define cmds where "cmds = [Init, RasterMode 0x01, ModeSettings 0x00, MarginAmount 0x00 0x00]
           @ job_commands ss (nat (ss div 8)) top_margin bottom_margin True images @ [Print]"
  have p: "parse_stream (concat chunks) = Some cmds"
    unfolding cmds_def ss_def by (rule parses_render_stream [OF r])
  have b: "concat (map command_bytes cmds) = concat chunks"
    by (rule parse_stream_bytes [OF p])
  have ss: "ss = 408 \<or> ss = 312" unfolding ss_def by (rule stripe_size_cases)
  then have e: "int (nat (ss div 8)) * 8 = ss" by auto
  have f: "\<forall>c\<in>set cmds. \<forall>n payload. c = RowFrame n payload \<longrightarrow>
               command_bytes c = [0x47, word_of_nat n, word_of_nat (n div 256)] @ payload
             \<and> length payload = n
             \<and> int n * 8 = dict_get STRIPE_SIZE pm STRIPE_SIZE_DEFAULT"
  proof (intro ballI allI impI)
    fix c n payload
    assume "c \<in> set cmds" and c: "c = RowFrame n payload"
    then have "RowFrame n payload
        \<in> set (job_commands ss (nat (ss div 8)) top_margin bottom_margin True images)"
      by (simp add: cmds_def)
    from job_commands_rows [OF this] e c
    show "command_bytes c = [0x47, word_of_nat n, word_of_nat (n div 256)] @ payload
             \<and> length payload = n
             \<and> int n * 8 = dict_get STRIPE_SIZE pm STRIPE_SIZE_DEFAULT"
      by (simp add: ss_def)
  qed
  show ?thesis
    by (intro exI [of _ pm] exI [of _ cmds] conjI pm p b f)
qed

theorem row_frames_well_formed_witness:
  "\<exists>chunks. fst (render refusing_network Map.empty [black_1x1] None None 2 2) = Inr chunks
     \<and> (\<exists>cmds. parse_stream (concat chunks) = Some cmds
          \<and> concat (map command_bytes cmds) = concat chunks
          \<and> (\<forall>c\<in>set cmds. \<forall>n payload. c = RowFrame n payload \<longrightarrow>
                length payload = n \<and> n = 51))"
proof -
  have "\<forall>img\<in>set [black_1x1]. 0 \<le> int (width img) + 2 + 2
       \<and> int (width img) + 2 + 2 \<le> 4294967295"
    by (simp add: black_1x1_def)
  from render_stream_returns [OF this, of None]
  obtain chunks where "render_stream None [black_1x1] 2 2 = Inr chunks" ..
  then have r: "fst (render refusing_network Map.empty [black_1x1] None None 2 2) = Inr chunks"
    by (simp add: render_no_model)
  from row_frames_well_formed [OF r] obtain pm cmds where
    pm: "(None :: string option) = None \<and> \<not> truthy None \<longrightarrow> pm = None"
    and p: "parse_stream (concat chunks) = Some cmds"
    and b: "concat (map command_bytes cmds) = concat chunks"
    and f: "\<forall>c\<in>set cmds. \<forall>n payload. c = RowFrame n payload \<longrightarrow>
               command_bytes c = [0x47, word_of_nat n, word_of_nat (n div 256)] @ payload
             \<and> length payload = n
             \<and> int n * 8 = dict_get STRIPE_SIZE pm STRIPE_SIZE_DEFAULT"
    by blast
  from pm have "pm = None" by simp
  with f have "\<forall>c\<in>set cmds. \<forall>n payload. c = RowFrame n payload \<longrightarrow>
               length payload = n \<and> n = 51"
    by (simp add: stripe_size_None)
  with r p b show ?thesis by blast
qed

text \<open>
  C6: in every stream that \<^const>\<open>render\<close> produces, the commands of every image are
  the two commands before the rows, \<open>top_margin\<close> empty rows, one row frame per
  column, and after the column frames exactly \<open>top_margin\<close> empty rows again (as a
  count of rows: none when \<open>top_margin\<close> is negative) and nothing else, whatever
  \<open>bottom_margin\<close> is.
\<close>

theorem bottom_margin_rows:
  assumes "fst (render urlopen PRINTER_BY_IP images ip printer_model top_margin bottom_margin)
             = Inr chunks"
  shows "\<exists>printer_model' stripe_size stripe_count.
           (printer_model \<noteq> None \<longrightarrow> printer_model' = printer_model)
         \<and> stripe_size = dict_get STRIPE_SIZE printer_model' STRIPE_SIZE_DEFAULT
         \<and> stripe_count = nat (stripe_size div 8)
         \<and> parse_stream (concat chunks) =
             Some ([Init, RasterMode 0x01, ModeSettings 0x00, MarginAmount 0x00 0x00]
                   @ job_commands stripe_size stripe_count top_margin bottom_margin True images
                   @ [Print])
         \<and> (\<forall>img\<in>set images.
               length (image_commands stripe_size stripe_count top_margin bottom_margin img)
                 = 2 + nat top_margin + width img + nat top_margin
             \<and> take (width img) (drop (2 + nat top_margin)
                   (image_commands stripe_size stripe_count top_margin bottom_margin img))
                 = map (\<lambda>x. RowFrame stripe_count (column_row stripe_size stripe_count img x))
                       [0..<width img]
             \<and> drop (2 + nat top_margin + width img)
                   (image_commands stripe_size stripe_count top_margin bottom_margin img)
                 = replicate (nat top_margin) (empty_frame stripe_count))"
proof -
  from render_result [OF assms] obtain pm where
    pm: "printer_model \<noteq> None \<longrightarrow> pm = printer_model"
    and r: "render_stream pm images top_margin bottom_margin = Inr chunks" by blast
  have "length (image_commands ss sc top_margin bottom_margin img)
                 = 2 + nat top_margin + width img + nat top_margin
      \<and> take (width img) (drop (2 + nat top_margin)
                   (image_commands ss sc top_margin bottom_margin img))
                 = map (\<lambda>x. RowFrame sc (column_row ss sc img x)) [0..<width img]
      \<and> drop (2 + nat top_margin + width img)
                   (image_commands ss sc top_margin bottom_margin img)
                 = replicate (nat top_margin) (empty_frame sc)" for ss sc img
    by (simp add: image_commands_def Let_def)
  with pm parses_render_stream [OF r] show ?thesis by blast
qed

theorem bottom_margin_rows_witness:
  "\<exists>chunks. fst (render refusing_network Map.empty [black_1x1] None (Some ''9800PCN'') 2 5)
       = Inr chunks
     \<and> parse_stream (concat chunks) =
         Some ([Init, RasterMode 0x01, ModeSettings 0x00, MarginAmount 0x00 0x00]
               @ job_commands 312 39 2 5 True [black_1x1] @ [Print])
     \<and> drop (2 + 2 + 1) (image_commands 312 39 2 5 black_1x1) = replicate 2 (empty_frame 39)"
proof -
  have "\<forall>img\<in>set [black_1x1]. 0 \<le> int (width img) + 2 + 5
       \<and> int (width img) + 2 + 5 \<le> 4294967295"
    by (simp add: black_1x1_def)
  from render_stream_returns [OF this, of "Some ''9800PCN''"]
  obtain chunks where "render_stream (Some ''9800PCN'') [black_1x1] 2 5 = Inr chunks" ..
  then have r: "fst (render refusing_network Map.empty [black_1x1] None (Some ''9800PCN'') 2 5)
      = Inr chunks"
    by (simp only: render_explicit)
  from bottom_margin_rows [OF r] obtain pm ss sc where
    pm: "Some ''9800PCN'' \<noteq> None \<longrightarrow> pm = Some ''9800PCN''"
    and ss: "ss = dict_get STRIPE_SIZE pm STRIPE_SIZE_DEFAULT"
    and sc: "sc = nat (ss div 8)"
    and p: "parse_stream (concat chunks) =
             Some ([Init, RasterMode 0x01, ModeSettings 0x00, MarginAmount 0x00 0x00]
                   @ job_commands ss sc 2 5 True [black_1x1] @ [Print])"
    and f: "\<forall>img\<in>set [black_1x1].
               length (image_commands ss sc 2 5 img) = 2 + nat 2 + width img + nat 2
             \<and> take (width img) (drop (2 + nat 2) (image_commands ss sc 2 5 img))
                 = map (\<lambda>x. RowFrame sc (column_row ss sc img x)) [0..<width img]
             \<and> drop (2 + nat 2 + width img) (image_commands ss sc 2 5 img)
                 = replicate (nat 2) (empty_frame sc)"
    by blast
  from pm have "pm = Some ''9800PCN''" by simp
  with ss sc have v: "ss = 312" "sc = 39" by (simp_all add: stripe_size_9800)
  from f have "drop (2 + nat 2 + width black_1x1) (image_commands ss sc 2 5 black_1x1)
      = replicate (nat 2) (empty_frame sc)" by simp
  then have "drop (2 + 2 + 1) (image_commands 312 39 2 5 black_1x1) = replicate 2 (empty_frame 39)"
    unfolding v by (simp add: black_1x1_def)
  with r p v show ?thesis by blast
qed

text \<open>
  The first branch of the starting page byte is never taken: \<open>first\<close> is already false
  when the print information command is built. Every print information command of a job
  carries 0x01, and the page feed stands between the commands of two images.
\<close>

lemma image_commands_shape:
  "PageFeed \<notin> set (image_commands stripe_size stripe_count top_margin bottom_margin img)"
  "PrintInformation info \<in> set (image_commands stripe_size stripe_count top_margin bottom_margin img)
     \<Longrightarrow> length info = 10 \<and> info ! 8 = 0x01"
  by (auto simp: image_commands_def Let_def empty_frame_def)

lemma render_two_images:
  assumes "render_stream printer_model [img1, img2] top_margin bottom_margin = Inr chunks"
  shows "parse_stream (concat chunks) =
     Some ([Init, RasterMode 0x01, ModeSettings 0x00, MarginAmount 0x00 0x00]
           @ image_commands (dict_get STRIPE_SIZE printer_model STRIPE_SIZE_DEFAULT)
               (nat (dict_get STRIPE_SIZE printer_model STRIPE_SIZE_DEFAULT div 8))
               top_margin bottom_margin img1
           @ [PageFeed]
           @ image_commands (dict_get STRIPE_SIZE printer_model STRIPE_SIZE_DEFAULT)
               (nat (dict_get STRIPE_SIZE printer_model STRIPE_SIZE_DEFAULT div 8))
               top_margin bottom_margin img2
           @ [Print])"
  using parses_render_stream [OF assms] by simp

lemma black_column_P950: "column_row 408 51 black_1x1 0 = replicate 50 0x00 @ [0x01]"
  by code_simp

text \<open>
  C2, on the job of two 1 x 1 black images for a P950NW with margins of one row: the
  stream has its one page feed between the commands of the two images, and the starting
  page byte (the ninth parameter byte of the print information command) is 0x01 in the
  command of the first image as in the one of the second.
\<close>

theorem render_two_images_start_flags:
  "\<exists>chunks.
     fst (render refusing_network Map.empty [black_1x1, black_1x1] None (Some ''P950NW'') 1 1)
       = Inr chunks
   \<and> parse_stream (concat chunks) =
       Some [Init, RasterMode 0x01, ModeSettings 0x00, MarginAmount 0x00 0x00,
             PrintInformation [0xc0, 0x00, 0x00, 0x00, 0x03, 0x00, 0x00, 0x00, 0x01, 0x00],
             CompressionMode 0x00,
             RowFrame 51 (replicate 51 0x00),
             RowFrame 51 (replicate 50 0x00 @ [0x01]),
             RowFrame 51 (replicate 51 0x00),
             PageFeed,
             PrintInformation [0xc0, 0x00, 0x00, 0x00, 0x03, 0x00, 0x00, 0x00, 0x01, 0x00],
             CompressionMode 0x00,
             RowFrame 51 (replicate 51 0x00),
             RowFrame 51 (replicate 50 0x00 @ [0x01]),
             RowFrame 51 (replicate 51 0x00),
             Print]"
proof -
  have "\<forall>img\<in>set [black_1x1, black_1x1]. 0 \<le> int (width img) + 1 + 1
       \<and> int (width img) + 1 + 1 \<le> 4294967295"
    by (simp add: black_1x1_def)
  from render_stream_returns [OF this, of "Some ''P950NW''"]
  obtain chunks where r: "render_stream (Some ''P950NW'') [black_1x1, black_1x1] 1 1 = Inr chunks" ..
  have w: "width black_1x1 = 1" by (simp add: black_1x1_def)
  have i: "image_commands 408 51 1 1 black_1x1 =
      [PrintInformation [0xc0, 0x00, 0x00, 0x00, 0x03, 0x00, 0x00, 0x00, 0x01, 0x00],
       CompressionMode 0x00,
       RowFrame 51 (replicate 51 0x00),
       RowFrame 51 (replicate 50 0x00 @ [0x01]),
       RowFrame 51 (replicate 51 0x00)]"
    by (simp add: image_commands_def Let_def w empty_frame_def black_column_P950)
  have "parse_stream (concat chunks) =
     Some ([Init, RasterMode 0x01, ModeSettings 0x00, MarginAmount 0x00 0x00]
           @ job_commands 408 51 1 1 True [black_1x1, black_1x1] @ [Print])"
    using parses_render_stream [OF r] by (simp add: stripe_size_P950)
  then have "parse_stream (concat chunks) =
       Some [Init, RasterMode 0x01, ModeSettings 0x00, MarginAmount 0x00 0x00,
             PrintInformation [0xc0, 0x00, 0x00, 0x00, 0x03, 0x00, 0x00, 0x00, 0x01, 0x00],
             CompressionMode 0x00,
             RowFrame 51 (replicate 51 0x00),
             RowFrame 51 (replicate 50 0x00 @ [0x01]),
             RowFrame 51 (replicate 51 0x00),
             PageFeed,
             PrintInformation [0xc0, 0x00, 0x00, 0x00, 0x03, 0x00, 0x00, 0x00, 0x01, 0x00],
             CompressionMode 0x00,
             RowFrame 51 (replicate 51 0x00),
             RowFrame 51 (replicate 50 0x00 @ [0x01]),
             RowFrame 51 (replicate 51 0x00),
             Print]"
    by (simp add: i)
  moreover have "fst (render refusing_network Map.empty [black_1x1, black_1x1] None
      (Some ''P950NW'') 1 1) = Inr chunks"
    using r by (simp only: render_explicit)
  ultimately show ?thesis by blast
qed

end
